theory Spec2Isabelle
  imports Complex_Main "HOL-Library.Sublist"
begin

section \<open>Data model\<close>

text \<open>
  The Python exceptions the program can raise. \<open>UnboundLocalError\<close> is what reading the
  locals \<open>name\<close>, \<open>seq\<close> or \<open>spacer\<close> of \<open>parse_fastq\<close> before their first assignment
  would raise; \<open>ArgumentError\<close> is the exit of \<open>argparse\<close> on a rejected command line.
\<close>

datatype py_error = UnboundLocalError | AssertionError | ZeroDivisionError | ArgumentError

text \<open>A record is the 4-tuple \<open>(name, seq, spacer, qua)\<close> that \<open>parse_fastq\<close> yields.\<close>

type_synonym fastq = "string \<times> string \<times> string \<times> string"

type_synonym read_pair = "fastq \<times> fastq"

section \<open>Record reader: \<open>parse_fastq\<close>\<close>

text \<open>
  \<open>str.strip()\<close> without arguments removes leading and trailing whitespace: space, tab,
  line feed, vertical tab, form feed and carriage return.
\<close>

definition is_space :: "char \<Rightarrow> bool" where
  "is_space c \<longleftrightarrow> c \<in> set [CHR '' '', CHR 0x09, CHR 0x0A, CHR 0x0B, CHR 0x0C, CHR 0x0D]"

definition strip :: "string \<Rightarrow> string" where
  "strip s = rev (dropWhile is_space (rev (dropWhile is_space s)))"

text \<open>
  The loop \<open>for i in fi\<close> of \<open>parse_fastq\<close> over the lines of the opened file, with the
  counter \<open>n\<close> and the locals \<open>name\<close>, \<open>seq\<close>, \<open>spacer\<close> (\<open>None\<close> while unassigned). The
  result is the list of the tuples the generator yields, in order.
\<close>

fun parse_loop ::
  "int \<Rightarrow> string option \<Rightarrow> string option \<Rightarrow> string option \<Rightarrow> string list
    \<Rightarrow> py_error + fastq list" where
  "parse_loop n name seq spacer [] = Inr []"
| "parse_loop n name seq spacer (i # fi) =
    (let t = n mod 4; i' = strip i in
     if t = 0 then parse_loop (n + 1) (Some i') seq spacer fi
     else if t = 1 then parse_loop (n + 1) name (Some i') spacer fi
     else if t = 2 then parse_loop (n + 1) name seq (Some i') fi
     else (case (name, seq, spacer) of
             (Some a, Some b, Some c) \<Rightarrow>
               (case parse_loop (n + 1) name seq spacer fi of
                  Inl e \<Rightarrow> Inl e
                | Inr rs \<Rightarrow> Inr ((a, b, c, i') # rs))
           | _ \<Rightarrow> Inl UnboundLocalError))"

text \<open>
  \<open>parse_fastq\<close> on the lines of the file at \<open>path\<close>; choosing the opener by the path's
  suffix belongs to the decompression layer and is not modelled.
\<close>

definition parse_fastq :: "string list \<Rightarrow> py_error + fastq list" where
  "parse_fastq fi = parse_loop 0 None None None fi"

text \<open>The four-line framing in the words of the specification.\<close>

fun records_of :: "string list \<Rightarrow> fastq list" where
  "records_of (a # b # c # d # rest) = (strip a, strip b, strip c, strip d) # records_of rest"
| "records_of _ = []"

section \<open>Filter evaluator\<close>

definition ord :: "char \<Rightarrow> int" where
  "ord c = of_char c"

text \<open>The loop \<open>for i in range(35)\<close> of \<open>is_s35_bad\<close>, with its counter \<open>q30\<close>.\<close>

fun s35_loop :: "string \<Rightarrow> int \<Rightarrow> nat list \<Rightarrow> int \<Rightarrow> int" where
  "s35_loop qua quafmt [] q30 = q30"
| "s35_loop qua quafmt (i # rng) q30 =
     s35_loop qua quafmt rng (if ord (qua ! i) - quafmt \<ge> 30 then q30 + 1 else q30)"

definition is_s35_bad :: "string \<Rightarrow> int \<Rightarrow> py_error + bool" where
  "is_s35_bad qua quafmt =
    (if quafmt \<notin> set [33, 64] then Inl AssertionError
     else if int (length qua) < 35 then Inr True
     else (let q30 = s35_loop qua quafmt [0..<35] 0
           in if q30 < 25 then Inr True else Inr False))"

definition is_ns :: "string \<Rightarrow> bool" where
  "is_ns seq = (if CHR ''N'' \<in> set seq then True else False)"

text \<open>
  \<open>float(a) / b\<close>: division by zero raises. The quotient is kept as the exact
  rational. Python rounds it to the nearest double, as it rounds the literal \<open>0.85\<close>;
  rounding is monotone and moves a value in \<open>[1/2, 1]\<close> by at most \<open>2^-54\<close>, so for
  \<open>c \<le> n < 2^48\<close> the doubles compare as \<open>c / n\<close> and \<open>17 / 20\<close> do: these are equal,
  or differ by at least \<open>1 / (20 n) > 2^-53\<close>.
\<close>

definition float_div :: "int \<Rightarrow> int \<Rightarrow> py_error + rat" where
  "float_div a b = (if b = 0 then Inl ZeroDivisionError else Inr (of_int a / of_int b))"

definition str_count :: "string \<Rightarrow> char \<Rightarrow> int" where
  "str_count seq c = int (count_list seq c)"

definition is_polyn :: "string \<Rightarrow> rat \<Rightarrow> py_error + bool" where
  "is_polyn seq threshold =
    (case float_div (str_count seq CHR ''A'') (int (length seq)) of
       Inl e \<Rightarrow> Inl e
     | Inr fa \<Rightarrow> if fa \<ge> threshold then Inr True else
    (case float_div (str_count seq CHR ''T'') (int (length seq)) of
       Inl e \<Rightarrow> Inl e
     | Inr ft \<Rightarrow> if ft \<ge> threshold then Inr True else
    (case float_div (str_count seq CHR ''C'') (int (length seq)) of
       Inl e \<Rightarrow> Inl e
     | Inr fc \<Rightarrow> if fc \<ge> threshold then Inr True else
    (case float_div (str_count seq CHR ''G'') (int (length seq)) of
       Inl e \<Rightarrow> Inl e
     | Inr fg \<Rightarrow> if fg \<ge> threshold then Inr True else Inr False))))"

text \<open>The default of the parameter \<open>threshold\<close>, which the pipeline never overrides.\<close>

definition default_threshold :: rat where
  "default_threshold = 85 / 100"

section \<open>Filter pipeline: \<open>solexa_reads_filter\<close>\<close>

text \<open>The parameters of \<open>solexa_reads_filter\<close> after the two paths.\<close>

record config =
  quafmt :: int
  min_len :: int
  s35 :: bool
  ns :: bool
  polyn :: bool

text \<open>
  The local counters of \<open>solexa_reads_filter\<close>; \<open>progress\<close> collects the arguments of
  the calls \<open>logger.info('Processed: ...')\<close>, oldest first.
\<close>

record counters =
  n_total_seq :: int
  n_total_base :: int
  n_mlen_drop_seq :: int
  n_mlen_drop_base :: int
  n_s35_drop_seq :: int
  n_s35_drop_base :: int
  n_ns_drop_seq :: int
  n_ns_drop_base :: int
  n_polyn_drop_seq :: int
  n_polyn_drop_base :: int
  n_report :: int
  progress :: "int list"

definition init_counters :: counters where
  "init_counters =
    \<lparr>n_total_seq = 0, n_total_base = 0, n_mlen_drop_seq = 0, n_mlen_drop_base = 0,
     n_s35_drop_seq = 0, n_s35_drop_base = 0, n_ns_drop_seq = 0, n_ns_drop_base = 0,
     n_polyn_drop_seq = 0, n_polyn_drop_base = 0, n_report = 2000, progress = []\<rparr>"

text \<open>
  Python's \<open>a or b\<close> and \<open>flag and b\<close> on operands that may raise: the right operand is
  evaluated only when the left one does not decide.
\<close>

definition py_or :: "py_error + bool \<Rightarrow> py_error + bool \<Rightarrow> py_error + bool" where
  "py_or a b = (case a of Inl e \<Rightarrow> Inl e | Inr True \<Rightarrow> Inr True | Inr False \<Rightarrow> b)"

definition py_and :: "bool \<Rightarrow> py_error + bool \<Rightarrow> py_error + bool" where
  "py_and flag b = (if flag then b else Inr False)"

text \<open>How one pass through the body of the \<open>for\<close> loop ends.\<close>

datatype step_result = Continue | Yield read_pair | Raise py_error

definition seq_of :: "fastq \<Rightarrow> string" where
  "seq_of r = (case r of (name, seq, spacer, qua) \<Rightarrow> seq)"

definition qua_of :: "fastq \<Rightarrow> string" where
  "qua_of r = (case r of (name, seq, spacer, qua) \<Rightarrow> qua)"

definition pair_len :: "read_pair \<Rightarrow> int" where
  "pair_len p = int (length (seq_of (fst p))) + int (length (seq_of (snd p)))"

text \<open>Lines 75 to 80: the totals and the progress message, before any filter.\<close>

definition count_pair :: "counters \<Rightarrow> read_pair \<Rightarrow> counters" where
  "count_pair st p =
    (let st1 = st\<lparr>n_total_seq := n_total_seq st + 2,
                   n_total_base := n_total_base st + pair_len p\<rparr>
     in if n_total_seq st1 mod n_report st1 = 0
        then st1\<lparr>progress := progress st1 @ [n_total_seq st1], n_report := n_report st1 * 2\<rparr>
        else st1)"

text \<open>Lines 73 to 102: the body of the loop on the pair \<open>(r1, r2)\<close>.\<close>

definition loop_body :: "config \<Rightarrow> counters \<Rightarrow> read_pair \<Rightarrow> counters \<times> step_result" where
  "loop_body cfg st p =
    (let seq_1 = seq_of (fst p); qua_1 = qua_of (fst p);
         seq_2 = seq_of (snd p); qua_2 = qua_of (snd p);
         st1 = count_pair st p
     in
     if int (length seq_1) < min_len cfg \<or> int (length seq_2) < min_len cfg
     then (st1\<lparr>n_mlen_drop_seq := n_mlen_drop_seq st1 + 2,
               n_mlen_drop_base := n_mlen_drop_base st1 + (int (length seq_1) + int (length seq_2))\<rparr>,
           Continue)
     else
     (case py_and (s35 cfg) (py_or (is_s35_bad qua_1 (quafmt cfg)) (is_s35_bad qua_2 (quafmt cfg))) of
        Inl e \<Rightarrow> (st1, Raise e)
      | Inr True \<Rightarrow>
          (st1\<lparr>n_s35_drop_seq := n_s35_drop_seq st1 + 2,
               n_s35_drop_base := n_s35_drop_base st1 + (int (length seq_1) + int (length seq_2))\<rparr>,
           Continue)
      | Inr False \<Rightarrow>
     if ns cfg \<and> (is_ns seq_1 \<or> is_ns seq_2)
     then (st1\<lparr>n_ns_drop_seq := n_ns_drop_seq st1 + 2,
               n_ns_drop_base := n_ns_drop_base st1 + (int (length seq_1) + int (length seq_2))\<rparr>,
           Continue)
     else
     (case py_and (polyn cfg) (py_or (is_polyn seq_1 default_threshold)
                                     (is_polyn seq_2 default_threshold)) of
        Inl e \<Rightarrow> (st1, Raise e)
      | Inr True \<Rightarrow>
          (st1\<lparr>n_polyn_drop_seq := n_polyn_drop_seq st1 + 2,
               n_polyn_drop_base := n_polyn_drop_base st1 + (int (length seq_1) + int (length seq_2))\<rparr>,
           Continue)
      | Inr False \<Rightarrow> (st1, Yield p))))"

text \<open>
  The \<open>for\<close> loop over the pairs: the counters when the loop ends or raises, the pairs
  yielded up to then, and the exception if one ended the loop.
\<close>

fun run_loop :: "config \<Rightarrow> counters \<Rightarrow> read_pair list
    \<Rightarrow> counters \<times> read_pair list \<times> py_error option" where
  "run_loop cfg st [] = (st, [], None)"
| "run_loop cfg st (p # ps) =
    (case loop_body cfg st p of
       (st', Raise e) \<Rightarrow> (st', [], Some e)
     | (st', Continue) \<Rightarrow> run_loop cfg st' ps
     | (st', Yield q) \<Rightarrow>
         (case run_loop cfg st' ps of (st'', out, err) \<Rightarrow> (st'', q # out, err)))"

section \<open>Stats reporter\<close>

text \<open>
  The values logged at the end of the run, in the order of the log. The two retained
  percentages are doubles rounded by \<open>round(x, 2)\<close>; their values are left out, and only
  the divisions that compute them are kept, for the exception they raise.
\<close>

record summary =
  mlen_dropped_reads :: int
  mlen_dropped_bases :: int
  s35_dropped_reads :: int
  s35_dropped_bases :: int
  ns_dropped_reads :: int
  ns_dropped_bases :: int
  polyn_dropped_reads :: int
  polyn_dropped_bases :: int
  total_reads :: int
  total_bases :: int
  retained_reads :: int
  retained_bases :: int

text \<open>
  Lines 104 to 122: the retained counts, the two divisions of lines 106 and 109, then
  the log.
\<close>

definition report :: "counters \<Rightarrow> py_error + summary" where
  "report st =
    (let n_retained_seq = n_total_seq st - n_mlen_drop_seq st - n_s35_drop_seq st;
         n_retained_seq = n_retained_seq - (n_ns_drop_seq st + n_polyn_drop_seq st)
     in case float_div n_retained_seq (n_total_seq st) of
          Inl e \<Rightarrow> Inl e
        | Inr fs \<Rightarrow>
    (let n_retained_base = n_total_base st - n_mlen_drop_base st - n_s35_drop_base st;
         n_retained_base = n_retained_base - (n_ns_drop_base st + n_polyn_drop_base st)
     in case float_div n_retained_base (n_total_base st) of
          Inl e \<Rightarrow> Inl e
        | Inr fb \<Rightarrow>
     Inr \<lparr>mlen_dropped_reads = n_mlen_drop_seq st, mlen_dropped_bases = n_mlen_drop_base st,
          s35_dropped_reads = n_s35_drop_seq st, s35_dropped_bases = n_s35_drop_base st,
          ns_dropped_reads = n_ns_drop_seq st, ns_dropped_bases = n_ns_drop_base st,
          polyn_dropped_reads = n_polyn_drop_seq st, polyn_dropped_bases = n_polyn_drop_base st,
          total_reads = n_total_seq st, total_bases = n_total_base st,
          retained_reads = n_retained_seq, retained_bases = n_retained_base\<rparr>))"

text \<open>
  What a caller of the generator \<open>solexa_reads_filter\<close> observes: the pairs yielded, the
  progress messages, and how the generator ends: with the summary logged, or with an
  exception (raised in the loop, or by the percentages after it).
\<close>

record run =
  emitted :: "read_pair list"
  processed_log :: "int list"
  ending :: "py_error + summary"

text \<open>
  \<open>izip\<close> pairs the records of the two readers and stops with the shorter one. A reader
  that raised would end the run; the readers are consumed lazily, which the list of
  their records does not show.
\<close>

definition solexa_reads_filter :: "string list \<Rightarrow> string list \<Rightarrow> config \<Rightarrow> run" where
  "solexa_reads_filter r1_lines r2_lines cfg =
    (case parse_fastq r1_lines of
       Inl e \<Rightarrow> \<lparr>emitted = [], processed_log = [], ending = Inl e\<rparr>
     | Inr rs1 \<Rightarrow>
    (case parse_fastq r2_lines of
       Inl e \<Rightarrow> \<lparr>emitted = [], processed_log = [], ending = Inl e\<rparr>
     | Inr rs2 \<Rightarrow>
    (case run_loop cfg init_counters (zip rs1 rs2) of
       (st, out, Some e) \<Rightarrow> \<lparr>emitted = out, processed_log = progress st, ending = Inl e\<rparr>
     | (st, out, None) \<Rightarrow> \<lparr>emitted = out, processed_log = progress st, ending = report st\<rparr>)))"

section \<open>Command line: \<open>main\<close>\<close>

text \<open>
  What \<open>argparse\<close> finds on the command line, each value already converted by its
  \<open>type\<close>: \<open>None\<close> for an option that is absent, \<open>True\<close> for a flag that is present.
\<close>

record raw_args =
  opt_r1 :: "string option"
  opt_r2 :: "string option"
  opt_Q :: "int option"
  opt_r :: "int option"
  opt_o :: "string option"
  opt_m :: bool
  opt_z :: bool
  opt_x :: bool
  opt_v :: bool

text \<open>The namespace \<open>args\<close> that \<open>parser.parse_args()\<close> returns.\<close>

record args =
  arg_r1 :: string
  arg_r2 :: string
  arg_quafmt :: int
  arg_min_len :: int
  arg_outdir :: string
  arg_merge :: bool
  arg_fr_s35 :: bool
  arg_fr_ns :: bool
  arg_fr_polyn :: bool

text \<open>
  Lines 183 to 210: \<open>-r1\<close>, \<open>-r2\<close>, \<open>-Q\<close> and \<open>-o\<close> are \<open>required\<close>, \<open>-Q\<close> has
  \<open>choices=[33, 64]\<close>, \<open>-r\<close> defaults to 1, \<open>-m\<close> is \<open>store_true\<close> and \<open>-z\<close>, \<open>-x\<close>, \<open>-v\<close>
  are \<open>store_false\<close>. A command line that \<open>argparse\<close> rejects ends the program there.
\<close>

definition parse_args :: "raw_args \<Rightarrow> py_error + args" where
  "parse_args raw =
    (case (opt_r1 raw, opt_r2 raw, opt_Q raw, opt_o raw) of
       (Some a, Some b, Some q, Some d) \<Rightarrow>
         if q \<in> set [33, 64]
         then Inr \<lparr>arg_r1 = a, arg_r2 = b, arg_quafmt = q,
                   arg_min_len = (case opt_r raw of None \<Rightarrow> 1 | Some n \<Rightarrow> n),
                   arg_outdir = d, arg_merge = opt_m raw, arg_fr_s35 = \<not> opt_z raw,
                   arg_fr_ns = \<not> opt_x raw, arg_fr_polyn = \<not> opt_v raw\<rparr>
         else Inl ArgumentError
     | _ \<Rightarrow> Inl ArgumentError)"

text \<open>\<open>'\n'.join(r)\<close> followed by \<open>'\n'\<close>, as written for each record.\<close>

definition write_record :: "fastq \<Rightarrow> string" where
  "write_record r =
    (case r of (name, seq, spacer, qua) \<Rightarrow>
       name @ [CHR 0x0A] @ seq @ [CHR 0x0A] @ spacer @ [CHR 0x0A] @ qua @ [CHR 0x0A])"

text \<open>
  What a run of the program leaves: the run of the generator, if it was started; the
  files opened for writing in the output directory, each with all that was written to
  it; and the exception that ended the program, if any.
\<close>

record main_result =
  pipeline :: "run option"
  written :: "(string \<times> string) list"
  failure :: "py_error option"

text \<open>
  \<open>main\<close>, given the command line and the lines of the file at each path. Creating the
  output directory and configuring the loggers are not modelled.
\<close>

definition main :: "raw_args \<Rightarrow> (string \<Rightarrow> string list) \<Rightarrow> main_result" where
  "main raw lines_at =
    (case parse_args raw of
       Inl e \<Rightarrow> \<lparr>pipeline = None, written = [], failure = Some e\<rparr>
     | Inr a \<Rightarrow>
        (let g = solexa_reads_filter (lines_at (arg_r1 a)) (lines_at (arg_r2 a))
                   \<lparr>quafmt = arg_quafmt a, min_len = arg_min_len a, s35 = arg_fr_s35 a,
                    ns = arg_fr_ns a, polyn = arg_fr_polyn a\<rparr>;
             exc = (case ending g of Inl e \<Rightarrow> Some e | Inr _ \<Rightarrow> None)
         in if arg_merge a
            then \<lparr>pipeline = Some g,
                  written = [(''pe.merged.fq'',
                     concat (map (\<lambda>p. write_record (fst p) @ write_record (snd p)) (emitted g)))],
                  failure = exc\<rparr>
            else \<lparr>pipeline = Some g,
                  written = [(''pe.r1.fq'', concat (map (\<lambda>p. write_record (fst p)) (emitted g))),
                             (''pe.r2.fq'', concat (map (\<lambda>p. write_record (snd p)) (emitted g)))],
                  failure = exc\<rparr>))"

section \<open>The filters in the words of the specification\<close>

text \<open>
  The four filters as the specification words them, on one mate, and the category of
  the first enabled filter that a pair fails in the fixed order length, quality
  window, ambiguous base, low complexity. The theorems below compare the code with
  these.
\<close>

datatype drop_reason = MinLen | S35 | Ns | PolyN

definition spec_length_fails :: "int \<Rightarrow> fastq \<Rightarrow> bool" where
  "spec_length_fails ml r \<longleftrightarrow> int (length (seq_of r)) < ml"

definition spec_s35_fails :: "int \<Rightarrow> fastq \<Rightarrow> bool" where
  "spec_s35_fails fmt r \<longleftrightarrow>
     length (qua_of r) < 35 \<or>
     length (filter (\<lambda>c. of_char c - fmt \<ge> 30) (take 35 (qua_of r))) < 25"

definition spec_ns_fails :: "fastq \<Rightarrow> bool" where
  "spec_ns_fails r \<longleftrightarrow> CHR ''N'' \<in> set (seq_of r)"

definition base_fraction :: "char \<Rightarrow> string \<Rightarrow> rat" where
  "base_fraction b sq = of_nat (count_list sq b) / of_nat (length sq)"

definition spec_polyn_fails :: "fastq \<Rightarrow> bool" where
  "spec_polyn_fails r \<longleftrightarrow>
     base_fraction CHR ''A'' (seq_of r) \<ge> 85 / 100 \<or>
     base_fraction CHR ''T'' (seq_of r) \<ge> 85 / 100 \<or>
     base_fraction CHR ''C'' (seq_of r) \<ge> 85 / 100 \<or>
     base_fraction CHR ''G'' (seq_of r) \<ge> 85 / 100"

definition spec_first_failing :: "config \<Rightarrow> read_pair \<Rightarrow> drop_reason option" where
  "spec_first_failing cfg p =
    (if spec_length_fails (min_len cfg) (fst p) \<or> spec_length_fails (min_len cfg) (snd p)
     then Some MinLen
     else if s35 cfg \<and> (spec_s35_fails (quafmt cfg) (fst p) \<or> spec_s35_fails (quafmt cfg) (snd p))
     then Some S35
     else if ns cfg \<and> (spec_ns_fails (fst p) \<or> spec_ns_fails (snd p))
     then Some Ns
     else if polyn cfg \<and> (spec_polyn_fails (fst p) \<or> spec_polyn_fails (snd p))
     then Some PolyN
     else None)"

text \<open>The pairs of a stream of pairs that fall into one category, and their bases.\<close>

definition dropped_by :: "config \<Rightarrow> drop_reason \<Rightarrow> read_pair list \<Rightarrow> read_pair list" where
  "dropped_by cfg r ps = filter (\<lambda>p. spec_first_failing cfg p = Some r) ps"

definition bases_of :: "read_pair list \<Rightarrow> int" where
  "bases_of ps = sum_list (map pair_len ps)"

text \<open>The increment that a pair dropped in category \<open>r\<close> makes to the drop counters.\<close>

definition count_drop :: "drop_reason \<Rightarrow> read_pair \<Rightarrow> counters \<Rightarrow> counters" where
  "count_drop r p st =
    (case r of
       MinLen \<Rightarrow> st\<lparr>n_mlen_drop_seq := n_mlen_drop_seq st + 2,
                     n_mlen_drop_base := n_mlen_drop_base st + pair_len p\<rparr>
     | S35 \<Rightarrow> st\<lparr>n_s35_drop_seq := n_s35_drop_seq st + 2,
                  n_s35_drop_base := n_s35_drop_base st + pair_len p\<rparr>
     | Ns \<Rightarrow> st\<lparr>n_ns_drop_seq := n_ns_drop_seq st + 2,
                 n_ns_drop_base := n_ns_drop_base st + pair_len p\<rparr>
     | PolyN \<Rightarrow> st\<lparr>n_polyn_drop_seq := n_polyn_drop_seq st + 2,
                    n_polyn_drop_base := n_polyn_drop_base st + pair_len p\<rparr>)"

text \<open>The two conditions of the loop body that may raise, as the body evaluates them.\<close>

definition s35_check :: "config \<Rightarrow> read_pair \<Rightarrow> py_error + bool" where
  "s35_check cfg p = py_and (s35 cfg) (py_or (is_s35_bad (qua_of (fst p)) (quafmt cfg))
                                   (is_s35_bad (qua_of (snd p)) (quafmt cfg)))"

definition polyn_check :: "config \<Rightarrow> read_pair \<Rightarrow> py_error + bool" where
  "polyn_check cfg p = py_and (polyn cfg) (py_or (is_polyn (seq_of (fst p)) default_threshold)
                                         (is_polyn (seq_of (snd p)) default_threshold))"

text \<open>The drop counters of one category.\<close>

definition drops_seq :: "drop_reason \<Rightarrow> counters \<Rightarrow> int" where
  "drops_seq r st =
    (case r of MinLen \<Rightarrow> n_mlen_drop_seq st | S35 \<Rightarrow> n_s35_drop_seq st
             | Ns \<Rightarrow> n_ns_drop_seq st | PolyN \<Rightarrow> n_polyn_drop_seq st)"

definition drops_base :: "drop_reason \<Rightarrow> counters \<Rightarrow> int" where
  "drops_base r st =
    (case r of MinLen \<Rightarrow> n_mlen_drop_base st | S35 \<Rightarrow> n_s35_drop_base st
             | Ns \<Rightarrow> n_ns_drop_base st | PolyN \<Rightarrow> n_polyn_drop_base st)"

section \<open>A small run\<close>

text \<open>
  Two files of two records each, 36 bases a read; the second file has an \<open>N\<close> in its
  second read and ends in a line that starts a third record. All filters are enabled.
\<close>

definition ex_r1_lines :: "string list" where
  "ex_r1_lines =
    [''@a/1\<newline>'', ''ACGTACGTACGTACGTACGTACGTACGTACGTACGT\<newline>'', ''+\<newline>'', ''IIIIIIIIIIIIIIIIIIIIIIIIIIIIIIIIIIII\<newline>'',
     ''@b/1\<newline>'', ''ACGTACGTACGTACGTACGTACGTACGTACGTACGT\<newline>'', ''+\<newline>'', ''IIIIIIIIIIIIIIIIIIIIIIIIIIIIIIIIIIII\<newline>'']"

definition ex_r2_lines :: "string list" where
  "ex_r2_lines =
    [''@a/2\<newline>'', ''TGCATGCATGCATGCATGCATGCATGCATGCATGCA\<newline>'', ''+\<newline>'', ''IIIIIIIIIIIIIIIIIIIIIIIIIIIIIIIIIIII\<newline>'',
     ''@b/2\<newline>'', ''TGCATGCATGCATGCANGCATGCATGCATGCATGCA\<newline>'', ''+\<newline>'', ''IIIIIIIIIIIIIIIIIIIIIIIIIIIIIIIIIIII\<newline>'',
     ''@c/2\<newline>'']"

definition ex_pair_a :: read_pair where
  "ex_pair_a = ((''@a/1'', ''ACGTACGTACGTACGTACGTACGTACGTACGTACGT'', ''+'', ''IIIIIIIIIIIIIIIIIIIIIIIIIIIIIIIIIIII''), (''@a/2'', ''TGCATGCATGCATGCATGCATGCATGCATGCATGCA'', ''+'', ''IIIIIIIIIIIIIIIIIIIIIIIIIIIIIIIIIIII''))"

definition ex_pair_b :: read_pair where
  "ex_pair_b = ((''@b/1'', ''ACGTACGTACGTACGTACGTACGTACGTACGTACGT'', ''+'', ''IIIIIIIIIIIIIIIIIIIIIIIIIIIIIIIIIIII''), (''@b/2'', ''TGCATGCATGCATGCANGCATGCATGCATGCATGCA'', ''+'', ''IIIIIIIIIIIIIIIIIIIIIIIIIIIIIIIIIIII''))"

definition ex_cfg :: config where
  "ex_cfg = \<lparr>quafmt = 33, min_len = 1, s35 = True, ns = True, polyn = True\<rparr>"

definition ex_counters :: counters where
  "ex_counters =
    \<lparr>n_total_seq = 4, n_total_base = 144, n_mlen_drop_seq = 0, n_mlen_drop_base = 0,
     n_s35_drop_seq = 0, n_s35_drop_base = 0, n_ns_drop_seq = 2, n_ns_drop_base = 72,
     n_polyn_drop_seq = 0, n_polyn_drop_base = 0, n_report = 2000, progress = []\<rparr>"

definition ex_cfg_off :: config where
  "ex_cfg_off = \<lparr>quafmt = 33, min_len = 1, s35 = False, ns = False, polyn = False\<rparr>"

text \<open>
  Lines with whitespace of every kind at both ends and a space inside, and a fifth line
  that starts a second record.
\<close>

definition ex_ws_lines :: "string list" where
  "ex_ws_lines =
    [''  @w/1 '' @ [CHR 0x09, CHR 0x0D, CHR 0x0A],
     [CHR 0x09] @ ''AC GT'' @ [CHR 0x0A],
     ''+'' @ [CHR 0x0A],
     [CHR 0x0B, CHR 0x0C] @ '' II II '' @ [CHR 0x0A],
     ''@partial'' @ [CHR 0x0A]]"

text \<open>A pair whose first mate is empty.\<close>

definition ex_pair_empty :: read_pair where
  "ex_pair_empty = ((''@e/1'', [], ''+'', []), (''@e/2'', ''AAAA'', ''+'', ''IIII''))"

text \<open>A command line with a valid offset, and the two files above at its paths.\<close>

definition ex_raw :: raw_args where
  "ex_raw = \<lparr>opt_r1 = Some ''r1.fq'', opt_r2 = Some ''r2.fq'', opt_Q = Some 33, opt_r = None,
             opt_o = Some ''out'', opt_m = False, opt_z = False, opt_x = False, opt_v = False\<rparr>"

definition ex_args :: args where
  "ex_args = \<lparr>arg_r1 = ''r1.fq'', arg_r2 = ''r2.fq'', arg_quafmt = 33, arg_min_len = 1,
              arg_outdir = ''out'', arg_merge = False, arg_fr_s35 = True, arg_fr_ns = True,
              arg_fr_polyn = True\<rparr>"

definition ex_lines_at :: "string \<Rightarrow> string list" where
  "ex_lines_at path = (if path = ''r1.fq'' then ex_r1_lines
                       else if path = ''r2.fq'' then ex_r2_lines else [])"

section \<open>The record reader yields the four-line groups\<close>

text \<open>
  \<open>strip\<close> removes a prefix and a suffix of whitespace and leaves none at either end.
\<close>

lemma is_space_iff:
  "is_space c \<longleftrightarrow> c \<in> {CHR '' '', CHR 0x09, CHR 0x0A, CHR 0x0B, CHR 0x0C, CHR 0x0D}"
  by (simp add: is_space_def)

lemma strip_decomposition:
  "s = takeWhile is_space s @ strip s @ rev (takeWhile is_space (rev (dropWhile is_space s)))"
proof -
  let ?t = "dropWhile is_space s"
  have "rev (takeWhile is_space (rev ?t) @ dropWhile is_space (rev ?t)) = ?t"
    by (simp only: takeWhile_dropWhile_id rev_rev_ident)
  then have "rev (dropWhile is_space (rev ?t)) @ rev (takeWhile is_space (rev ?t)) = ?t"
    by (simp only: rev_append)
  then have "?t = strip s @ rev (takeWhile is_space (rev ?t))"
    by (simp only: strip_def)
  moreover have "s = takeWhile is_space s @ ?t" by simp
  ultimately show ?thesis by simp
qed

lemma strip_ends:
  assumes "strip s \<noteq> []"
  shows "\<not> is_space (hd (strip s))" and "\<not> is_space (last (strip s))"
proof -
  let ?t = "dropWhile is_space s"
  let ?u = "dropWhile is_space (rev ?t)"
  from assms have u: "?u \<noteq> []" by (simp add: strip_def)
  then have "\<not> is_space (hd ?u)" by (rule hd_dropWhile)
  moreover have "last (strip s) = hd ?u" using u by (simp add: strip_def last_rev)
  ultimately show "\<not> is_space (last (strip s))" by simp
  have t: "?t \<noteq> []"
  proof
    assume "?t = []"
    then have "?u = []" by (simp only: rev.simps dropWhile.simps)
    with u show False by simp
  qed
  then have "\<not> is_space (hd ?t)" by (rule hd_dropWhile)
  moreover have "?t = strip s @ rev (takeWhile is_space (rev ?t))"
    using strip_decomposition [of s] by (metis same_append_eq takeWhile_dropWhile_id)
  then have "hd ?t = hd (strip s)" using assms by (metis hd_append2)
  ultimately show "\<not> is_space (hd (strip s))" by simp
qed

lemma strip_whitespace_only:
  "\<exists>pre suf. s = pre @ strip s @ suf \<and>
      set pre \<subseteq> {CHR '' '', CHR 0x09, CHR 0x0A, CHR 0x0B, CHR 0x0C, CHR 0x0D} \<and>
      set suf \<subseteq> {CHR '' '', CHR 0x09, CHR 0x0A, CHR 0x0B, CHR 0x0C, CHR 0x0D}"
proof (intro exI conjI)
  show "s = takeWhile is_space s @ strip s @ rev (takeWhile is_space (rev (dropWhile is_space s)))"
    by (rule strip_decomposition)
  show "set (takeWhile is_space s) \<subseteq> {CHR '' '', CHR 0x09, CHR 0x0A, CHR 0x0B, CHR 0x0C, CHR 0x0D}"
    using set_takeWhileD [of _ is_space s] by (auto simp: is_space_iff)
  show "set (rev (takeWhile is_space (rev (dropWhile is_space s))))
          \<subseteq> {CHR '' '', CHR 0x09, CHR 0x0A, CHR 0x0B, CHR 0x0C, CHR 0x0D}"
    using set_takeWhileD [of _ is_space "rev (dropWhile is_space s)"] by (auto simp: is_space_iff)
qed

lemma mod4_steps:
  fixes n :: int
  assumes "n mod 4 = 0"
  shows "(n + 1) mod 4 = 1" "(n + 1 + 1) mod 4 = 2" "(n + 1 + 1 + 1) mod 4 = 3"
    "(n + 1 + 1 + 1 + 1) mod 4 = 0" "(1 + n) mod 4 = 1" "(2 + n) mod 4 = 2"
  using assms by presburger+

lemma parse_loop_records_of:
  "n mod 4 = 0 \<Longrightarrow> parse_loop n name seq spacer fi = Inr (records_of fi)"
proof (induction fi arbitrary: n name seq spacer rule: records_of.induct)
  case (1 a b c d rest)
  note m = mod4_steps [OF "1.prems"]
  show ?case
    using "1.prems" m(1,2,3) "1.IH" [OF m(4)] by (simp add: Let_def)
qed (simp_all add: Let_def mod4_steps)

lemma length_records_of: "length (records_of fi) = length fi div 4"
  by (induction fi rule: records_of.induct) simp_all

lemma records_of_map:
  "records_of fi = map (\<lambda>k. (strip (fi ! (4 * k)), strip (fi ! (4 * k + 1)),
                           strip (fi ! (4 * k + 2)), strip (fi ! (4 * k + 3))))
                     [0..<length fi div 4]"
proof (induction fi rule: records_of.induct)
  case (1 a b c d rest)
  have "[0..<length (a # b # c # d # rest) div 4] = 0 # map Suc [0..<length rest div 4]"
    by (simp add: upt_conv_Cons map_Suc_upt del: upt_Suc)
  then show ?case using 1 by (simp add: comp_def add.commute)
qed simp_all

lemma parse_fastq_records_of: "parse_fastq fi = Inr (records_of fi)"
  by (simp add: parse_fastq_def parse_loop_records_of)

section \<open>The filters meet their wording\<close>

lemma s35_loop_count:
  "s35_loop qua fmt rng q30 =
     q30 + int (length (filter (\<lambda>i. ord (qua ! i) - fmt \<ge> 30) rng))"
  by (induction rng arbitrary: q30) simp_all

lemma filter_take_nth:
  "n \<le> length xs \<Longrightarrow>
     length (filter (\<lambda>i. P (xs ! i)) [0..<n]) = length (filter P (take n xs))"
proof -
  assume n: "n \<le> length xs"
  have "map ((!) xs) [0..<n] = take n xs"
    using n by (intro map_upt_eqI) simp_all
  then have "filter P (take n xs) = filter P (map ((!) xs) [0..<n])" by simp
  then show ?thesis by (simp add: filter_map comp_def)
qed

lemma is_s35_bad_valid:
  assumes "fmt = 33 \<or> fmt = 64"
  shows "is_s35_bad qua fmt =
       Inr (length qua < 35 \<or>
            length (filter (\<lambda>c. ord c - fmt \<ge> 30) (take 35 qua)) < 25)"
proof (cases "length qua < 35")
  case True
  with assms show ?thesis by (auto simp: is_s35_bad_def)
next
  case False
  then have "35 \<le> length qua" by simp
  then have "length (filter (\<lambda>i. ord (qua ! i) - fmt \<ge> 30) [0..<35])
      = length (filter (\<lambda>c. ord c - fmt \<ge> 30) (take 35 qua))"
    using filter_take_nth [of 35 qua "\<lambda>c. ord c - fmt \<ge> 30"] by simp
  with False assms show ?thesis
    by (auto simp: is_s35_bad_def s35_loop_count Let_def)
qed

lemma is_s35_bad_invalid:
  "fmt \<noteq> 33 \<Longrightarrow> fmt \<noteq> 64 \<Longrightarrow> is_s35_bad qua fmt = Inl AssertionError"
  by (simp add: is_s35_bad_def)

lemma is_s35_bad_spec:
  "is_s35_bad (qua_of r) fmt = Inr b \<Longrightarrow> b = spec_s35_fails fmt r"
  by (cases "fmt = 33 \<or> fmt = 64")
     (auto simp: is_s35_bad_valid is_s35_bad_invalid spec_s35_fails_def ord_def)

lemma is_polyn_empty: "is_polyn [] t = Inl ZeroDivisionError"
  by (simp add: is_polyn_def float_div_def)

lemma is_polyn_nonempty:
  "sq \<noteq> [] \<Longrightarrow>
     is_polyn sq t =
       Inr (base_fraction CHR ''A'' sq \<ge> t \<or> base_fraction CHR ''T'' sq \<ge> t \<or>
            base_fraction CHR ''C'' sq \<ge> t \<or> base_fraction CHR ''G'' sq \<ge> t)"
  by (simp add: is_polyn_def float_div_def str_count_def base_fraction_def)

lemma is_polyn_spec:
  "is_polyn (seq_of r) default_threshold = Inr b \<Longrightarrow> b = spec_polyn_fails r"
  by (cases "seq_of r = []")
     (auto simp: is_polyn_empty is_polyn_nonempty spec_polyn_fails_def default_threshold_def)

lemma s35_stage:
  assumes "py_and (s35 cfg) (py_or (is_s35_bad (qua_of (fst p)) (quafmt cfg))
                                  (is_s35_bad (qua_of (snd p)) (quafmt cfg))) = Inr b"
  shows "b = (s35 cfg \<and> (spec_s35_fails (quafmt cfg) (fst p) \<or> spec_s35_fails (quafmt cfg) (snd p)))"
  using assms
  by (auto simp: py_and_def py_or_def split: if_splits sum.splits bool.splits
           dest: is_s35_bad_spec)

lemma polyn_stage:
  assumes "py_and (polyn cfg) (py_or (is_polyn (seq_of (fst p)) default_threshold)
                                    (is_polyn (seq_of (snd p)) default_threshold)) = Inr b"
  shows "b = (polyn cfg \<and> (spec_polyn_fails (fst p) \<or> spec_polyn_fails (snd p)))"
  using assms
  by (auto simp: py_and_def py_or_def split: if_splits sum.splits bool.splits
           dest: is_polyn_spec)

section \<open>One pass through the loop body\<close>

lemma loop_body_totals:
  "n_total_seq (fst (loop_body cfg st p)) = n_total_seq st + 2 \<and>
   n_total_base (fst (loop_body cfg st p)) = n_total_base st + pair_len p"
  by (simp add: loop_body_def count_pair_def Let_def split: sum.split bool.split)

lemma loop_body_alt:
  "loop_body cfg st p =
    (if spec_length_fails (min_len cfg) (fst p) \<or> spec_length_fails (min_len cfg) (snd p)
     then (count_drop MinLen p (count_pair st p), Continue)
     else case s35_check cfg p of
        Inl e \<Rightarrow> (count_pair st p, Raise e)
      | Inr True \<Rightarrow> (count_drop S35 p (count_pair st p), Continue)
      | Inr False \<Rightarrow>
     if ns cfg \<and> (spec_ns_fails (fst p) \<or> spec_ns_fails (snd p))
     then (count_drop Ns p (count_pair st p), Continue)
     else case polyn_check cfg p of
        Inl e \<Rightarrow> (count_pair st p, Raise e)
      | Inr True \<Rightarrow> (count_drop PolyN p (count_pair st p), Continue)
      | Inr False \<Rightarrow> (count_pair st p, Yield p))"
  unfolding loop_body_def Let_def s35_check_def polyn_check_def spec_length_fails_def
    count_drop_def pair_len_def spec_ns_fails_def is_ns_def
  by (simp split: sum.split bool.split)

lemma s35_check_spec:
  "s35_check cfg p = Inr b \<Longrightarrow>
     b = (s35 cfg \<and> (spec_s35_fails (quafmt cfg) (fst p) \<or> spec_s35_fails (quafmt cfg) (snd p)))"
  unfolding s35_check_def by (rule s35_stage)

lemma polyn_check_spec:
  "polyn_check cfg p = Inr b \<Longrightarrow>
     b = (polyn cfg \<and> (spec_polyn_fails (fst p) \<or> spec_polyn_fails (snd p)))"
  unfolding polyn_check_def by (rule polyn_stage)

lemma loop_body_outcome:
  "(\<exists>e. loop_body cfg st p = (count_pair st p, Raise e)) \<or>
   loop_body cfg st p =
     (case spec_first_failing cfg p of
        None \<Rightarrow> (count_pair st p, Yield p)
      | Some r \<Rightarrow> (count_drop r p (count_pair st p), Continue))"
proof (cases "spec_length_fails (min_len cfg) (fst p) \<or> spec_length_fails (min_len cfg) (snd p)")
  case True
  then show ?thesis
    by (simp add: loop_body_alt spec_first_failing_def)
next
  case len_ok: False
  show ?thesis
  proof (cases "s35_check cfg p")
    case (Inl e)
    with len_ok show ?thesis
      by (simp add: loop_body_alt)
  next
    case (Inr b)
    note sb = s35_check_spec [OF Inr]
    show ?thesis
    proof (cases b)
      case True
      with sb have "spec_first_failing cfg p = Some S35"
        using len_ok by (simp add: spec_first_failing_def)
      with len_ok Inr True show ?thesis
        by (simp add: loop_body_alt)
    next
      case False
      with Inr sb have s35_ok: "s35_check cfg p = Inr False"
        and s35_spec: "\<not> (s35 cfg \<and> (spec_s35_fails (quafmt cfg) (fst p)
                                     \<or> spec_s35_fails (quafmt cfg) (snd p)))"
        by simp_all
      show ?thesis
      proof (cases "ns cfg \<and> (spec_ns_fails (fst p) \<or> spec_ns_fails (snd p))")
        case True
        with len_ok s35_spec have "spec_first_failing cfg p = Some Ns"
          by (simp add: spec_first_failing_def)
        with len_ok s35_ok True show ?thesis
          by (simp add: loop_body_alt)
      next
        case ns_ok: False
        show ?thesis
        proof (cases "polyn_check cfg p")
          case (Inl e)
          with len_ok s35_ok ns_ok show ?thesis
            by (auto simp: loop_body_alt)
        next
          case qb: (Inr c)
          note pb = polyn_check_spec [OF qb]
          show ?thesis
          proof (cases c)
            case True
            with pb len_ok s35_spec ns_ok have "spec_first_failing cfg p = Some PolyN"
              by (simp add: spec_first_failing_def)
            with len_ok s35_ok ns_ok qb True show ?thesis
              by (auto simp: loop_body_alt)
          next
            case False
            with pb len_ok s35_spec ns_ok have "spec_first_failing cfg p = None"
              by (simp add: spec_first_failing_def)
            with len_ok s35_ok ns_ok qb False show ?thesis
              by (auto simp: loop_body_alt)
          qed
        qed
      qed
    qed
  qed
qed

section \<open>The loop over the pairs\<close>

lemma count_pair_fields:
  "n_total_seq (count_pair st p) = n_total_seq st + 2"
  "n_total_base (count_pair st p) = n_total_base st + pair_len p"
  "drops_seq r (count_pair st p) = drops_seq r st"
  "drops_base r (count_pair st p) = drops_base r st"
  by (cases r; simp add: count_pair_def Let_def drops_seq_def drops_base_def)+

lemma count_drop_fields:
  "n_total_seq (count_drop r' p st) = n_total_seq st"
  "n_total_base (count_drop r' p st) = n_total_base st"
  "drops_seq r (count_drop r' p st) = drops_seq r st + (if r = r' then 2 else 0)"
  "drops_base r (count_drop r' p st) = drops_base r st + (if r = r' then pair_len p else 0)"
  by (cases r; cases r'; simp add: count_drop_def drops_seq_def drops_base_def)+

lemma run_loop_Cons_cases:
  assumes "run_loop cfg st (p # ps) = (st', out, None)"
  obtains
    (drop) r where "spec_first_failing cfg p = Some r"
      "run_loop cfg (count_drop r p (count_pair st p)) ps = (st', out, None)"
  | (emit) out' where "spec_first_failing cfg p = None" "out = p # out'"
      "run_loop cfg (count_pair st p) ps = (st', out', None)"
proof -
  from loop_body_outcome [of cfg st p] show thesis
  proof
    assume "\<exists>e. loop_body cfg st p = (count_pair st p, Raise e)"
    with assms show thesis by auto
  next
    assume lb: "loop_body cfg st p =
      (case spec_first_failing cfg p of
         None \<Rightarrow> (count_pair st p, Yield p)
       | Some r \<Rightarrow> (count_drop r p (count_pair st p), Continue))"
    show thesis
    proof (cases "spec_first_failing cfg p")
      case None
      with lb assms show thesis
        by (auto split: prod.splits intro: emit)
    next
      case (Some r)
      with lb assms show thesis
        by (auto intro: drop)
    qed
  qed
qed

lemma run_loop_counts:
  "run_loop cfg st ps = (st', out, None) \<Longrightarrow>
     n_total_seq st' = n_total_seq st + 2 * int (length ps) \<and>
     n_total_base st' = n_total_base st + bases_of ps \<and>
     drops_seq r st' = drops_seq r st + 2 * int (length (dropped_by cfg r ps)) \<and>
     drops_base r st' = drops_base r st + bases_of (dropped_by cfg r ps) \<and>
     out = filter (\<lambda>p. spec_first_failing cfg p = None) ps"
proof (induction ps arbitrary: st out)
  case Nil
  then show ?case by (simp add: bases_of_def dropped_by_def)
next
  case (Cons p ps)
  from Cons.prems show ?case
  proof (cases rule: run_loop_Cons_cases)
    case (drop r')
    from Cons.IH [OF drop(2)] drop(1) show ?thesis
      by (simp add: count_pair_fields count_drop_fields bases_of_def dropped_by_def)
  next
    case (emit out')
    from Cons.IH [OF emit(3)] emit(1,2) show ?thesis
      by (simp add: count_pair_fields bases_of_def dropped_by_def)
  qed
qed

lemma run_loop_subseq: "subseq (fst (snd (run_loop cfg st ps))) ps"
proof (induction ps arbitrary: st)
  case Nil
  show ?case by simp
next
  case (Cons p ps)
  from loop_body_outcome [of cfg st p] show ?case
  proof
    assume "\<exists>e. loop_body cfg st p = (count_pair st p, Raise e)"
    then show ?thesis by auto
  next
    assume lb: "loop_body cfg st p =
      (case spec_first_failing cfg p of
         None \<Rightarrow> (count_pair st p, Yield p)
       | Some r \<Rightarrow> (count_drop r p (count_pair st p), Continue))"
    show ?thesis
    proof (cases "spec_first_failing cfg p")
      case None
      with lb Cons [of "count_pair st p"] show ?thesis
        by (auto split: prod.splits)
    next
      case (Some r)
      with lb Cons [of "count_drop r p (count_pair st p)"] show ?thesis
        by (simp add: list_emb_Cons)
    qed
  qed
qed

section \<open>Exceptions of the loop, and the generator as a whole\<close>

lemma s35_check_error: "s35_check cfg p = Inl e \<Longrightarrow> e = AssertionError"
  by (auto simp: s35_check_def py_and_def py_or_def is_s35_bad_def Let_def
           split: if_splits sum.splits bool.splits)

lemma s35_check_valid:
  "quafmt cfg = 33 \<or> quafmt cfg = 64 \<Longrightarrow> \<exists>b. s35_check cfg p = Inr b"
  by (auto simp: s35_check_def py_and_def py_or_def is_s35_bad_valid split: bool.splits)

lemma is_polyn_error: "is_polyn sq t = Inl e \<longleftrightarrow> sq = [] \<and> e = ZeroDivisionError"
  by (cases "sq = []") (auto simp: is_polyn_empty is_polyn_nonempty)

lemma polyn_check_error:
  "polyn_check cfg p = Inl e \<Longrightarrow>
     e = ZeroDivisionError \<and> (seq_of (fst p) = [] \<or> seq_of (snd p) = [])"
  by (auto simp: polyn_check_def py_and_def py_or_def is_polyn_error
           split: if_splits sum.splits bool.splits)

lemma polyn_check_nonempty:
  "seq_of (fst p) \<noteq> [] \<Longrightarrow> seq_of (snd p) \<noteq> [] \<Longrightarrow> \<exists>b. polyn_check cfg p = Inr b"
  by (auto simp: polyn_check_def py_and_def py_or_def is_polyn_nonempty split: bool.splits)

lemma length_ok_nonempty:
  "1 \<le> ml \<Longrightarrow> \<not> spec_length_fails ml r \<Longrightarrow> seq_of r \<noteq> []"
  by (auto simp: spec_length_fails_def)

lemma loop_body_raise:
  assumes "snd (loop_body cfg st p) = Raise e"
  shows "\<not> spec_length_fails (min_len cfg) (fst p) \<and> \<not> spec_length_fails (min_len cfg) (snd p) \<and>
         ((s35_check cfg p = Inl e \<and> e = AssertionError) \<or>
          (polyn_check cfg p = Inl e \<and> e = ZeroDivisionError \<and>
             (seq_of (fst p) = [] \<or> seq_of (snd p) = [])))"
  using assms
  by (auto simp: loop_body_alt split: if_splits sum.splits bool.splits
           dest: s35_check_error polyn_check_error)

lemma run_loop_error:
  "snd (snd (run_loop cfg st ps)) = Some e \<Longrightarrow> \<exists>p \<in> set ps. \<exists>st'. snd (loop_body cfg st' p) = Raise e"
proof (induction ps arbitrary: st)
  case Nil
  then show ?case by simp
next
  case (Cons p ps)
  obtain st1 r where lb: "loop_body cfg st p = (st1, r)" by (cases "loop_body cfg st p")
  show ?case
  proof (cases r)
    case Continue
    with lb Cons.prems have "snd (snd (run_loop cfg st1 ps)) = Some e" by simp
    from Cons.IH [OF this] show ?thesis by auto
  next
    case (Yield q)
    with lb Cons.prems have "snd (snd (run_loop cfg st1 ps)) = Some e"
      by (auto split: prod.splits)
    from Cons.IH [OF this] show ?thesis by auto
  next
    case (Raise e')
    with lb Cons.prems have "e' = e" by simp
    with lb Raise have "snd (loop_body cfg st p) = Raise e" by simp
    then show ?thesis by auto
  qed
qed

lemma loop_body_no_zero_division:
  assumes "1 \<le> min_len cfg"
  shows "snd (loop_body cfg st p) \<noteq> Raise ZeroDivisionError"
proof
  assume "snd (loop_body cfg st p) = Raise ZeroDivisionError"
  from loop_body_raise [OF this] assms show False
    by (auto dest: length_ok_nonempty)
qed

lemma loop_body_valid:
  assumes "quafmt cfg = 33 \<or> quafmt cfg = 64" and "1 \<le> min_len cfg"
  shows "snd (loop_body cfg st p) \<noteq> Raise e"
proof
  assume "snd (loop_body cfg st p) = Raise e"
  from loop_body_raise [OF this] s35_check_valid [OF assms(1), of p] assms(2) show False
    by (auto dest: length_ok_nonempty)
qed

lemma run_loop_valid:
  assumes "quafmt cfg = 33 \<or> quafmt cfg = 64" and "1 \<le> min_len cfg"
  shows "snd (snd (run_loop cfg st ps)) = None"
proof (cases "snd (snd (run_loop cfg st ps))")
  case None
  then show ?thesis .
next
  case (Some e)
  from run_loop_error [OF this] loop_body_valid [OF assms] show ?thesis by blast
qed

lemma run_loop_no_zero_division:
  assumes "1 \<le> min_len cfg"
  shows "snd (snd (run_loop cfg st ps)) \<noteq> Some ZeroDivisionError"
  using run_loop_error [of cfg st ps ZeroDivisionError] loop_body_no_zero_division [OF assms]
  by blast

lemma loop_body_empty_mate:
  assumes "1 \<le> min_len cfg" and "seq_of (fst p) = [] \<or> seq_of (snd p) = []"
  shows "loop_body cfg st p = (count_drop MinLen p (count_pair st p), Continue)"
  using assms by (auto simp: loop_body_alt spec_length_fails_def)

lemma solexa_reads_filter_alt:
  "solexa_reads_filter l1 l2 cfg =
    (case run_loop cfg init_counters (zip (records_of l1) (records_of l2)) of
       (st, out, Some e) \<Rightarrow> \<lparr>emitted = out, processed_log = progress st, ending = Inl e\<rparr>
     | (st, out, None) \<Rightarrow> \<lparr>emitted = out, processed_log = progress st, ending = report st\<rparr>)"
  by (simp add: solexa_reads_filter_def parse_fastq_records_of)

lemma emitted_solexa_reads_filter:
  "emitted (solexa_reads_filter l1 l2 cfg) =
     fst (snd (run_loop cfg init_counters (zip (records_of l1) (records_of l2))))"
  by (simp add: solexa_reads_filter_alt split: prod.splits option.splits)

lemma report_zero: "n_total_seq st = 0 \<Longrightarrow> report st = Inl ZeroDivisionError"
  by (simp add: report_def float_div_def Let_def)

section \<open>Counting lemmas\<close>

lemma count_list_two:
  "c \<noteq> d \<Longrightarrow> count_list xs c + count_list xs d \<le> length xs"
  by (induction xs) auto

lemma partition_reads:
  "length ps =
     length (dropped_by cfg MinLen ps) + length (dropped_by cfg S35 ps) +
     length (dropped_by cfg Ns ps) + length (dropped_by cfg PolyN ps) +
     length (filter (\<lambda>p. spec_first_failing cfg p = None) ps)"
proof (induction ps)
  case Nil
  show ?case by (simp add: dropped_by_def)
next
  case (Cons p ps)
  show ?case
  proof (cases "spec_first_failing cfg p")
    case None
    with Cons show ?thesis by (simp add: dropped_by_def)
  next
    case (Some r)
    with Cons show ?thesis by (cases r) (simp_all add: dropped_by_def)
  qed
qed

lemma partition_bases:
  "bases_of ps =
     bases_of (dropped_by cfg MinLen ps) + bases_of (dropped_by cfg S35 ps) +
     bases_of (dropped_by cfg Ns ps) + bases_of (dropped_by cfg PolyN ps) +
     bases_of (filter (\<lambda>p. spec_first_failing cfg p = None) ps)"
proof (induction ps)
  case Nil
  show ?case by (simp add: dropped_by_def bases_of_def)
next
  case (Cons p ps)
  show ?case
  proof (cases "spec_first_failing cfg p")
    case None
    with Cons show ?thesis by (simp add: dropped_by_def bases_of_def)
  next
    case (Some r)
    with Cons show ?thesis by (cases r) (simp_all add: dropped_by_def bases_of_def)
  qed
qed

lemma init_counters_fields:
  "n_total_seq init_counters = 0" "n_total_base init_counters = 0"
  "drops_seq r init_counters = 0" "drops_base r init_counters = 0"
  by (cases r; simp add: init_counters_def drops_seq_def drops_base_def)+

lemma run_loop_init_counts:
  assumes "run_loop cfg init_counters ps = (st, out, None)"
  shows "n_total_seq st = 2 * int (length ps)" "n_total_base st = bases_of ps"
    "drops_seq r st = 2 * int (length (dropped_by cfg r ps))"
    "drops_base r st = bases_of (dropped_by cfg r ps)"
    "out = filter (\<lambda>p. spec_first_failing cfg p = None) ps"
  using run_loop_counts [OF assms, of r] by (simp_all add: init_counters_fields)

lemma run_loop_init_partition:
  assumes "run_loop cfg init_counters ps = (st, out, None)"
  shows "n_total_seq st = 2 * int (length ps) \<and>
         n_total_base st = bases_of ps \<and>
         n_mlen_drop_seq st = 2 * int (length (dropped_by cfg MinLen ps)) \<and>
         n_mlen_drop_base st = bases_of (dropped_by cfg MinLen ps) \<and>
         n_s35_drop_seq st = 2 * int (length (dropped_by cfg S35 ps)) \<and>
         n_s35_drop_base st = bases_of (dropped_by cfg S35 ps) \<and>
         n_ns_drop_seq st = 2 * int (length (dropped_by cfg Ns ps)) \<and>
         n_ns_drop_base st = bases_of (dropped_by cfg Ns ps) \<and>
         n_polyn_drop_seq st = 2 * int (length (dropped_by cfg PolyN ps)) \<and>
         n_polyn_drop_base st = bases_of (dropped_by cfg PolyN ps) \<and>
         out = filter (\<lambda>p. spec_first_failing cfg p = None) ps \<and>
         n_mlen_drop_seq st + n_s35_drop_seq st + n_ns_drop_seq st + n_polyn_drop_seq st
           + 2 * int (length out) = n_total_seq st \<and>
         n_mlen_drop_base st + n_s35_drop_base st + n_ns_drop_base st + n_polyn_drop_base st
           + bases_of out = n_total_base st"
proof -
  note c = run_loop_init_counts [OF assms]
  have d: "n_mlen_drop_seq st = 2 * int (length (dropped_by cfg MinLen ps))"
    "n_s35_drop_seq st = 2 * int (length (dropped_by cfg S35 ps))"
    "n_ns_drop_seq st = 2 * int (length (dropped_by cfg Ns ps))"
    "n_polyn_drop_seq st = 2 * int (length (dropped_by cfg PolyN ps))"
    using c(3) [of MinLen] c(3) [of S35] c(3) [of Ns] c(3) [of PolyN]
    by (simp_all add: drops_seq_def)
  have b: "n_mlen_drop_base st = bases_of (dropped_by cfg MinLen ps)"
    "n_s35_drop_base st = bases_of (dropped_by cfg S35 ps)"
    "n_ns_drop_base st = bases_of (dropped_by cfg Ns ps)"
    "n_polyn_drop_base st = bases_of (dropped_by cfg PolyN ps)"
    using c(4) [of MinLen] c(4) [of S35] c(4) [of Ns] c(4) [of PolyN]
    by (simp_all add: drops_base_def)
  have s: "n_mlen_drop_seq st + n_s35_drop_seq st + n_ns_drop_seq st + n_polyn_drop_seq st
           + 2 * int (length out) = n_total_seq st"
    using partition_reads [of ps cfg] by (simp add: d c(1) c(5))
  have t: "n_mlen_drop_base st + n_s35_drop_base st + n_ns_drop_base st + n_polyn_drop_base st
           + bases_of out = n_total_base st"
    using partition_bases [of ps cfg] by (simp add: b c(2) c(5))
  from c(1,2,5) d b s t show ?thesis
    by (intro conjI) simp_all
qed

section \<open>Runs that raise nothing, and what the program can end with\<close>

lemma s35_check_off: "\<not> s35 cfg \<Longrightarrow> s35_check cfg p = Inr False"
  by (simp add: s35_check_def py_and_def)

lemma polyn_check_off: "\<not> polyn cfg \<Longrightarrow> polyn_check cfg p = Inr False"
  by (simp add: polyn_check_def py_and_def)

lemma loop_body_guarded:
  assumes "s35 cfg \<longrightarrow> quafmt cfg = 33 \<or> quafmt cfg = 64"
    and "polyn cfg \<longrightarrow> 1 \<le> min_len cfg \<or> (seq_of (fst p) \<noteq> [] \<and> seq_of (snd p) \<noteq> [])"
  shows "snd (loop_body cfg st p) \<noteq> Raise e"
proof
  assume "snd (loop_body cfg st p) = Raise e"
  from loop_body_raise [OF this]
  have len: "\<not> spec_length_fails (min_len cfg) (fst p)" "\<not> spec_length_fails (min_len cfg) (snd p)"
    and err: "s35_check cfg p = Inl e \<or>
              polyn_check cfg p = Inl e \<and> (seq_of (fst p) = [] \<or> seq_of (snd p) = [])"
    by auto
  from err show False
  proof
    assume s: "s35_check cfg p = Inl e"
    show False
    proof (cases "s35 cfg")
      case True
      with assms(1) s35_check_valid [of cfg p] s show False by auto
    next
      case False
      from s35_check_off [OF this, of p] s show False by simp
    qed
  next
    assume q: "polyn_check cfg p = Inl e \<and> (seq_of (fst p) = [] \<or> seq_of (snd p) = [])"
    show False
    proof (cases "polyn cfg")
      case True
      with assms(2) have "1 \<le> min_len cfg \<or> (seq_of (fst p) \<noteq> [] \<and> seq_of (snd p) \<noteq> [])"
        by simp
      with len q show False by (auto dest: length_ok_nonempty)
    next
      case False
      from polyn_check_off [OF this, of p] q show False by simp
    qed
  qed
qed

lemma run_loop_guarded:
  assumes "s35 cfg \<longrightarrow> quafmt cfg = 33 \<or> quafmt cfg = 64"
    and "polyn cfg \<longrightarrow> 1 \<le> min_len cfg \<or> (\<forall>p \<in> set ps. seq_of (fst p) \<noteq> [] \<and> seq_of (snd p) \<noteq> [])"
  shows "snd (snd (run_loop cfg st ps)) = None"
proof (cases "snd (snd (run_loop cfg st ps))")
  case None
  then show ?thesis .
next
  case (Some e)
  from run_loop_error [OF this] obtain p st' where p: "p \<in> set ps"
    and r: "snd (loop_body cfg st' p) = Raise e"
    by blast
  from assms(2) p
  have "polyn cfg \<longrightarrow> 1 \<le> min_len cfg \<or> (seq_of (fst p) \<noteq> [] \<and> seq_of (snd p) \<noteq> [])"
    by blast
  from loop_body_guarded [OF assms(1) this, of st' e] r show ?thesis by simp
qed

lemma run_loop_all_pass:
  assumes "\<forall>p \<in> set ps. spec_first_failing cfg p = None"
    and "s35 cfg \<longrightarrow> quafmt cfg = 33 \<or> quafmt cfg = 64"
    and "polyn cfg \<longrightarrow> 1 \<le> min_len cfg \<or> (\<forall>p \<in> set ps. seq_of (fst p) \<noteq> [] \<and> seq_of (snd p) \<noteq> [])"
  shows "fst (snd (run_loop cfg st ps)) = ps"
proof -
  obtain st' out err where r: "run_loop cfg st ps = (st', out, err)"
    by (cases "run_loop cfg st ps") auto
  with run_loop_guarded [OF assms(2,3), of st] have "run_loop cfg st ps = (st', out, None)"
    by simp
  from run_loop_counts [OF this, of MinLen] have "out = filter (\<lambda>p. spec_first_failing cfg p = None) ps"
    by simp
  also from assms(1) have "\<dots> = ps" by (simp add: filter_id_conv)
  finally show ?thesis using r by simp
qed

text \<open>
  The generator itself checks the offset only through the assertion of \<open>is_s35_bad\<close>:
  after the totals have counted the first pair that passes the length filter, and not
  at all when the quality-window filter is disabled.
\<close>

lemma s35_check_invalid:
  assumes "quafmt cfg \<noteq> 33" and "quafmt cfg \<noteq> 64" and "s35 cfg"
  shows "s35_check cfg p = Inl AssertionError"
  using assms by (simp add: s35_check_def py_and_def py_or_def is_s35_bad_invalid)

lemma assertion_after_totals:
  assumes "quafmt cfg \<noteq> 33" and "quafmt cfg \<noteq> 64" and "s35 cfg"
    and "\<not> spec_length_fails (min_len cfg) (fst p)" and "\<not> spec_length_fails (min_len cfg) (snd p)"
  shows "loop_body cfg st p = (count_pair st p, Raise AssertionError)"
  using assms(4,5) by (simp add: loop_body_alt s35_check_invalid [OF assms(1,2,3)])

lemma assertion_needs_s35:
  assumes "\<not> s35 cfg"
  shows "snd (snd (run_loop cfg st ps)) \<noteq> Some AssertionError"
proof
  assume "snd (snd (run_loop cfg st ps)) = Some AssertionError"
  from run_loop_error [OF this] obtain p st' where "snd (loop_body cfg st' p) = Raise AssertionError"
    by blast
  from loop_body_raise [OF this] have "s35_check cfg p = Inl AssertionError" by auto
  with s35_check_off [OF assms, of p] show False by simp
qed

text \<open>
  Without the length filter in front (\<open>min_len \<le> 0\<close>), an empty mate reaches the
  division of \<open>is_polyn\<close>.
\<close>

lemma polyn_division_unguarded:
  "snd (loop_body (ex_cfg_off\<lparr>min_len := 0, polyn := True\<rparr>) init_counters ex_pair_empty) =
     Raise ZeroDivisionError"
  by code_simp

lemma parse_args_valid:
  "parse_args raw = Inr a \<Longrightarrow> arg_quafmt a = 33 \<or> arg_quafmt a = 64"
  by (auto simp: parse_args_def split: option.splits if_splits)

lemma parse_args_invalid:
  "opt_Q raw \<noteq> Some 33 \<Longrightarrow> opt_Q raw \<noteq> Some 64 \<Longrightarrow> parse_args raw = Inl ArgumentError"
  by (auto simp: parse_args_def split: option.splits)

lemma report_error: "report st = Inl e \<Longrightarrow> e = ZeroDivisionError"
  by (auto simp: report_def float_div_def Let_def split: if_splits)

lemma run_loop_no_assertion:
  assumes "quafmt cfg = 33 \<or> quafmt cfg = 64"
  shows "snd (snd (run_loop cfg st ps)) \<noteq> Some AssertionError"
proof
  assume "snd (snd (run_loop cfg st ps)) = Some AssertionError"
  from run_loop_error [OF this] obtain p st' where "snd (loop_body cfg st' p) = Raise AssertionError"
    by blast
  from loop_body_raise [OF this] have "s35_check cfg p = Inl AssertionError" by auto
  with s35_check_valid [OF assms, of p] show False by auto
qed

lemma solexa_reads_filter_no_assertion:
  assumes "quafmt cfg = 33 \<or> quafmt cfg = 64"
  shows "ending (solexa_reads_filter l1 l2 cfg) \<noteq> Inl AssertionError"
proof -
  obtain st out err where r: "run_loop cfg init_counters (zip (records_of l1) (records_of l2)) = (st, out, err)"
    by (cases "run_loop cfg init_counters (zip (records_of l1) (records_of l2))") auto
  show ?thesis
  proof (cases err)
    case None
    with r have "ending (solexa_reads_filter l1 l2 cfg) = report st"
      by (simp add: solexa_reads_filter_alt)
    then show ?thesis using report_error [of st AssertionError] by auto
  next
    case (Some e)
    with r run_loop_no_assertion [OF assms, of init_counters "zip (records_of l1) (records_of l2)"]
    have "e \<noteq> AssertionError" by auto
    with r Some show ?thesis by (simp add: solexa_reads_filter_alt)
  qed
qed

section \<open>The claims\<close>

text \<open>
  Claim C1. Every pair pulled adds 2 to the total-read counter and the lengths of its
  two sequences to the total-base counter, before any filter runs (also when a filter
  then raises). With a valid offset and \<open>min_len \<ge> 1\<close> the loop ends without an
  exception. When it ends without one, the totals count all pairs; each drop category
  counts, with 2 reads and both lengths a pair, exactly the pairs whose first failing
  enabled filter in the order length, quality window, ambiguous base, low complexity
  is that category; the pairs yielded are those that fail no enabled filter; and the
  four drop counts plus the retained reads (two for each pair yielded) make the total
  reads, and likewise for bases.
\<close>
theorem drop_counters_partition_the_pairs:
  assumes "run_loop cfg init_counters ps = (st, out, err)"
  shows "n_total_seq (fst (loop_body cfg st0 p)) = n_total_seq st0 + 2 \<and>
         n_total_base (fst (loop_body cfg st0 p)) = n_total_base st0 + pair_len p \<and>
         ((quafmt cfg = 33 \<or> quafmt cfg = 64) \<and> 1 \<le> min_len cfg \<longrightarrow> err = None) \<and>
         (err = None \<longrightarrow>
           n_total_seq st = 2 * int (length ps) \<and>
           n_total_base st = bases_of ps \<and>
           n_mlen_drop_seq st = 2 * int (length (dropped_by cfg MinLen ps)) \<and>
           n_mlen_drop_base st = bases_of (dropped_by cfg MinLen ps) \<and>
           n_s35_drop_seq st = 2 * int (length (dropped_by cfg S35 ps)) \<and>
           n_s35_drop_base st = bases_of (dropped_by cfg S35 ps) \<and>
           n_ns_drop_seq st = 2 * int (length (dropped_by cfg Ns ps)) \<and>
           n_ns_drop_base st = bases_of (dropped_by cfg Ns ps) \<and>
           n_polyn_drop_seq st = 2 * int (length (dropped_by cfg PolyN ps)) \<and>
           n_polyn_drop_base st = bases_of (dropped_by cfg PolyN ps) \<and>
           out = filter (\<lambda>p. spec_first_failing cfg p = None) ps \<and>
           n_mlen_drop_seq st + n_s35_drop_seq st + n_ns_drop_seq st + n_polyn_drop_seq st
             + 2 * int (length out) = n_total_seq st \<and>
           n_mlen_drop_base st + n_s35_drop_base st + n_ns_drop_base st + n_polyn_drop_base st
             + bases_of out = n_total_base st)"
proof -
  have totals: "n_total_seq (fst (loop_body cfg st0 p)) = n_total_seq st0 + 2"
    "n_total_base (fst (loop_body cfg st0 p)) = n_total_base st0 + pair_len p"
    using loop_body_totals [of cfg st0 p] by simp_all
  have completes: "err = None" if "(quafmt cfg = 33 \<or> quafmt cfg = 64) \<and> 1 \<le> min_len cfg"
  proof -
    from that have "snd (snd (run_loop cfg init_counters ps)) = None"
      by (intro run_loop_valid) simp_all
    with assms show ?thesis by simp
  qed
  have counts: "n_total_seq st = 2 * int (length ps) \<and>
           n_total_base st = bases_of ps \<and>
           n_mlen_drop_seq st = 2 * int (length (dropped_by cfg MinLen ps)) \<and>
           n_mlen_drop_base st = bases_of (dropped_by cfg MinLen ps) \<and>
           n_s35_drop_seq st = 2 * int (length (dropped_by cfg S35 ps)) \<and>
           n_s35_drop_base st = bases_of (dropped_by cfg S35 ps) \<and>
           n_ns_drop_seq st = 2 * int (length (dropped_by cfg Ns ps)) \<and>
           n_ns_drop_base st = bases_of (dropped_by cfg Ns ps) \<and>
           n_polyn_drop_seq st = 2 * int (length (dropped_by cfg PolyN ps)) \<and>
           n_polyn_drop_base st = bases_of (dropped_by cfg PolyN ps) \<and>
           out = filter (\<lambda>p. spec_first_failing cfg p = None) ps \<and>
           n_mlen_drop_seq st + n_s35_drop_seq st + n_ns_drop_seq st + n_polyn_drop_seq st
             + 2 * int (length out) = n_total_seq st \<and>
           n_mlen_drop_base st + n_s35_drop_base st + n_ns_drop_base st + n_polyn_drop_base st
             + bases_of out = n_total_base st" if "err = None"
  proof -
    from that assms have "run_loop cfg init_counters ps = (st, out, None)" by simp
    then show ?thesis by (rule run_loop_init_partition)
  qed
  from totals completes counts show ?thesis
    by blast
qed

theorem drop_counters_partition_the_pairs_witness:
  "n_total_seq ex_counters = 2 * int (length [ex_pair_a, ex_pair_b]) \<and>
   n_ns_drop_seq ex_counters = 2 * int (length (dropped_by ex_cfg Ns [ex_pair_a, ex_pair_b])) \<and>
   n_ns_drop_base ex_counters = bases_of (dropped_by ex_cfg Ns [ex_pair_a, ex_pair_b]) \<and>
   n_polyn_drop_seq ex_counters = 2 * int (length (dropped_by ex_cfg PolyN [ex_pair_a, ex_pair_b])) \<and>
   [ex_pair_a] = filter (\<lambda>p. spec_first_failing ex_cfg p = None) [ex_pair_a, ex_pair_b] \<and>
   n_mlen_drop_seq ex_counters + n_s35_drop_seq ex_counters + n_ns_drop_seq ex_counters
     + n_polyn_drop_seq ex_counters + 2 * int (length [ex_pair_a]) = n_total_seq ex_counters"
proof -
  have h: "run_loop ex_cfg init_counters [ex_pair_a, ex_pair_b] = (ex_counters, [ex_pair_a], None)"
    by code_simp
  have v: "(quafmt ex_cfg = 33 \<or> quafmt ex_cfg = 64) \<and> 1 \<le> min_len ex_cfg"
    by (simp add: ex_cfg_def)
  from drop_counters_partition_the_pairs [OF h] v show ?thesis
    by blast
qed

text \<open>
  Claim C2. For an offset of 33 or 64, \<open>is_s35_bad\<close> reports failure exactly when the
  quality string is shorter than 35 characters or fewer than 25 of its first 35
  characters decode, as character code minus offset, to at least 30. Characters after
  the first 35 do not matter. A string of 35 characters with exactly 25 such positions
  passes, and one with 24 fails.
\<close>
theorem is_s35_bad_window:
  assumes "fmt = 33 \<or> fmt = 64"
  shows "is_s35_bad qua fmt =
           Inr (length qua < 35 \<or>
                length (filter (\<lambda>c. ord c - fmt \<ge> 30) (take 35 qua)) < 25) \<and>
         (35 \<le> length qua \<longrightarrow> is_s35_bad (take 35 qua @ rest) fmt = is_s35_bad qua fmt) \<and>
         (length qua = 35 \<and> length (filter (\<lambda>c. ord c - fmt \<ge> 30) qua) = 25
            \<longrightarrow> is_s35_bad qua fmt = Inr False) \<and>
         (length qua = 35 \<and> length (filter (\<lambda>c. ord c - fmt \<ge> 30) qua) = 24
            \<longrightarrow> is_s35_bad qua fmt = Inr True)"
proof (intro conjI impI)
  show "is_s35_bad qua fmt =
           Inr (length qua < 35 \<or>
                length (filter (\<lambda>c. ord c - fmt \<ge> 30) (take 35 qua)) < 25)"
    by (rule is_s35_bad_valid [OF assms])
next
  assume "35 \<le> length qua"
  then have "take 35 (take 35 qua @ rest) = take 35 qua"
    and "\<not> length (take 35 qua @ rest) < 35" and "\<not> length qua < 35"
    by simp_all
  then show "is_s35_bad (take 35 qua @ rest) fmt = is_s35_bad qua fmt"
    by (simp only: is_s35_bad_valid [OF assms])
next
  assume "length qua = 35 \<and> length (filter (\<lambda>c. ord c - fmt \<ge> 30) qua) = 25"
  then show "is_s35_bad qua fmt = Inr False"
    by (simp add: is_s35_bad_valid [OF assms])
next
  assume "length qua = 35 \<and> length (filter (\<lambda>c. ord c - fmt \<ge> 30) qua) = 24"
  then show "is_s35_bad qua fmt = Inr True"
    by (simp add: is_s35_bad_valid [OF assms])
qed


theorem is_s35_bad_window_witness:
  "is_s35_bad ''IIIIIIIIIIIIIIIIIIIIIIIII5555555555'' 33 = Inr False \<and>
   is_s35_bad ''IIIIIIIIIIIIIIIIIIIIIIII55555555555'' 33 = Inr True"
proof -
  have h: "(33::int) = 33 \<or> (33::int) = 64" by simp
  have v1: "(length ''IIIIIIIIIIIIIIIIIIIIIIIII5555555555'' < 35 \<or>
     length (filter (\<lambda>c. ord c - 33 \<ge> 30) (take 35 ''IIIIIIIIIIIIIIIIIIIIIIIII5555555555'')) < 25) = False"
    by code_simp
  have v2: "(length ''IIIIIIIIIIIIIIIIIIIIIIII55555555555'' < 35 \<or>
     length (filter (\<lambda>c. ord c - 33 \<ge> 30) (take 35 ''IIIIIIIIIIIIIIIIIIIIIIII55555555555'')) < 25) = True"
    by code_simp
  from is_s35_bad_window [OF h, of "''IIIIIIIIIIIIIIIIIIIIIIIII5555555555''" "[]"]
  have "is_s35_bad ''IIIIIIIIIIIIIIIIIIIIIIIII5555555555'' 33 = Inr False"
    by (simp only: v1)
  moreover
  from is_s35_bad_window [OF h, of "''IIIIIIIIIIIIIIIIIIIIIIII55555555555''" "[]"]
  have "is_s35_bad ''IIIIIIIIIIIIIIIIIIIIIIII55555555555'' 33 = Inr True"
    by (simp only: v2)
  ultimately show ?thesis by simp
qed

text \<open>
  Claim C3. For a non-empty sequence, \<open>is_polyn\<close> with the default threshold reports
  failure exactly when the count of the character \<open>A\<close>, of \<open>T\<close>, of \<open>C\<close> or of \<open>G\<close>,
  divided by the length of the sequence, is at least 0.85. A sequence of length 20 with
  17 \<open>A\<close> fails; one with 16 \<open>A\<close> passes.
\<close>
theorem is_polyn_threshold:
  assumes "sq \<noteq> []"
  shows "is_polyn sq default_threshold =
           Inr (base_fraction CHR ''A'' sq \<ge> 85 / 100 \<or> base_fraction CHR ''T'' sq \<ge> 85 / 100 \<or>
                base_fraction CHR ''C'' sq \<ge> 85 / 100 \<or> base_fraction CHR ''G'' sq \<ge> 85 / 100) \<and>
         (length sq = 20 \<and> count_list sq CHR ''A'' = 17
            \<longrightarrow> is_polyn sq default_threshold = Inr True) \<and>
         (length sq = 20 \<and> count_list sq CHR ''A'' = 16
            \<longrightarrow> is_polyn sq default_threshold = Inr False)"
proof (intro conjI impI)
  show "is_polyn sq default_threshold =
           Inr (base_fraction CHR ''A'' sq \<ge> 85 / 100 \<or> base_fraction CHR ''T'' sq \<ge> 85 / 100 \<or>
                base_fraction CHR ''C'' sq \<ge> 85 / 100 \<or> base_fraction CHR ''G'' sq \<ge> 85 / 100)"
    by (simp add: is_polyn_nonempty [OF assms] default_threshold_def)
next
  assume "length sq = 20 \<and> count_list sq CHR ''A'' = 17"
  then show "is_polyn sq default_threshold = Inr True"
    by (simp add: is_polyn_nonempty [OF assms] default_threshold_def base_fraction_def)
next
  assume a: "length sq = 20 \<and> count_list sq CHR ''A'' = 16"
  have "count_list sq CHR ''T'' \<le> 4" "count_list sq CHR ''C'' \<le> 4" "count_list sq CHR ''G'' \<le> 4"
    using a count_list_two [of "CHR ''A''" "CHR ''T''" sq]
      count_list_two [of "CHR ''A''" "CHR ''C''" sq]
      count_list_two [of "CHR ''A''" "CHR ''G''" sq]
    by simp_all
  then have "rat_of_nat (count_list sq CHR ''T'') \<le> 4" "rat_of_nat (count_list sq CHR ''C'') \<le> 4"
    "rat_of_nat (count_list sq CHR ''G'') \<le> 4"
    by (simp_all only: of_nat_le_iff [where ?'a = rat, symmetric] of_nat_numeral)
  with a show "is_polyn sq default_threshold = Inr False"
    by (simp add: is_polyn_nonempty [OF assms] default_threshold_def base_fraction_def)
qed

theorem is_polyn_threshold_witness:
  "is_polyn ''AAAAAAAAAAAAAAAAACGT'' default_threshold = Inr True \<and>
   is_polyn ''AAAAAAAAAAAAAAAACGTT'' default_threshold = Inr False \<and>
   is_polyn ''aaaaaaaaaaaaaaaaaCGT'' default_threshold = Inr False"
proof -
  have h: "''AAAAAAAAAAAAAAAAACGT'' \<noteq> []" "''AAAAAAAAAAAAAAAACGTT'' \<noteq> []"
    "''aaaaaaaaaaaaaaaaaCGT'' \<noteq> []"
    by simp_all
  show ?thesis
    using is_polyn_threshold [OF h(1)] is_polyn_threshold [OF h(2)] is_polyn_threshold [OF h(3)]
    by (simp add: base_fraction_def)
qed

text \<open>
  Claim C4, as the code has it. When the total-read counter is zero at the end of the
  loop, the division for the retained percentage raises \<open>ZeroDivisionError\<close>: the
  reporter logs no summary and produces no not-applicable value. That is the case
  whenever one of the two files has fewer than four lines, so that no pair is pulled:
  the generator then yields nothing and ends with that exception, and so does \<open>main\<close>,
  which does not catch it.
\<close>
theorem zero_total_raises:
  "(n_total_seq st = 0 \<longrightarrow> report st = Inl ZeroDivisionError) \<and>
   (length r1_lines < 4 \<or> length r2_lines < 4 \<longrightarrow>
      solexa_reads_filter r1_lines r2_lines cfg =
        \<lparr>emitted = [], processed_log = [], ending = Inl ZeroDivisionError\<rparr>) \<and>
   (parse_args raw = Inr a \<and>
    (length (lines_at (arg_r1 a)) < 4 \<or> length (lines_at (arg_r2 a)) < 4) \<longrightarrow>
      failure (main raw lines_at) = Some ZeroDivisionError)"
proof -
  have gen: "solexa_reads_filter l1 l2 c =
        \<lparr>emitted = [], processed_log = [], ending = Inl ZeroDivisionError\<rparr>"
    if "length l1 < 4 \<or> length l2 < 4" for l1 l2 c
  proof -
    from that have "length (records_of l1) = 0 \<or> length (records_of l2) = 0"
      by (auto simp: length_records_of)
    then have z: "zip (records_of l1) (records_of l2) = []"
      by auto
    show ?thesis
      unfolding solexa_reads_filter_alt z
      by (simp add: report_zero init_counters_def)
  qed
  have rep: "report st = Inl ZeroDivisionError" if "n_total_seq st = 0"
    using that by (rule report_zero)
  have prog: "failure (main raw lines_at) = Some ZeroDivisionError"
    if "parse_args raw = Inr a \<and>
        (length (lines_at (arg_r1 a)) < 4 \<or> length (lines_at (arg_r2 a)) < 4)"
  proof -
    from that have l: "length (lines_at (arg_r1 a)) < 4 \<or> length (lines_at (arg_r2 a)) < 4"
      and pa: "parse_args raw = Inr a" by simp_all
    show ?thesis by (simp add: main_def pa gen [OF l] Let_def)
  qed
  from rep gen [of r1_lines r2_lines cfg] prog show ?thesis by blast
qed

theorem zero_total_raises_witness:
  "report init_counters = Inl ZeroDivisionError \<and>
   solexa_reads_filter [] ex_r2_lines ex_cfg =
     \<lparr>emitted = [], processed_log = [], ending = Inl ZeroDivisionError\<rparr> \<and>
   failure (main ex_raw (\<lambda>path. if path = ''r1.fq'' then ex_r1_lines else [])) =
     Some ZeroDivisionError"
proof -
  have h: "n_total_seq init_counters = 0" by (simp add: init_counters_def)
  have l: "length ([] :: string list) < 4 \<or> length ex_r2_lines < 4" by simp
  have pa: "parse_args ex_raw = Inr ex_args"
    by code_simp
  have m: "length (if arg_r1 ex_args = ''r1.fq'' then ex_r1_lines else []) < 4 \<or>
           length (if arg_r2 ex_args = ''r1.fq'' then ex_r1_lines else []) < 4"
    by (simp add: ex_args_def)
  from zero_total_raises [of init_counters "[]" ex_r2_lines ex_cfg ex_raw ex_args
      "\<lambda>path. if path = ''r1.fq'' then ex_r1_lines else []"] h l pa m
  show ?thesis by blast
qed

theorem zero_total_counterexample:
  "main ex_raw (\<lambda>path. []) =
     \<lparr>pipeline = Some \<lparr>emitted = [], processed_log = [], ending = Inl ZeroDivisionError\<rparr>,
      written = [(''pe.r1.fq'', []), (''pe.r2.fq'', [])],
      failure = Some ZeroDivisionError\<rparr>"
  by code_simp

text \<open>
  Claim C5. \<open>is_ns\<close> reports failure exactly when the sequence contains the uppercase
  character \<open>N\<close>; a lowercase \<open>n\<close> anywhere in the sequence does not change the result.
\<close>
theorem is_ns_uppercase_only:
  "(is_ns sq \<longleftrightarrow> CHR ''N'' \<in> set sq) \<and>
   (is_ns (xs @ CHR ''n'' # ys) \<longleftrightarrow> is_ns (xs @ ys))"
  by (simp add: is_ns_def)

text \<open>
  Claim C6. With \<open>min_len \<ge> 1\<close>, a pair with an empty mate is dropped by the length
  filter; for a pair that passes the length filter both sequences are non-empty and the
  low-complexity condition evaluates to a truth value; so neither the loop body nor the
  loop raises \<open>ZeroDivisionError\<close>. The division in \<open>is_polyn\<close> raises exactly on the
  empty sequence.
\<close>
theorem length_filter_guards_polyn_division:
  assumes "1 \<le> min_len cfg"
  shows "(seq_of (fst p) = [] \<or> seq_of (snd p) = [] \<longrightarrow>
            snd (loop_body cfg st p) = Continue \<and>
            n_mlen_drop_seq (fst (loop_body cfg st p)) = n_mlen_drop_seq st + 2) \<and>
         (\<not> spec_length_fails (min_len cfg) (fst p) \<and> \<not> spec_length_fails (min_len cfg) (snd p) \<longrightarrow>
            seq_of (fst p) \<noteq> [] \<and> seq_of (snd p) \<noteq> [] \<and> (\<exists>b. polyn_check cfg p = Inr b)) \<and>
         snd (loop_body cfg st p) \<noteq> Raise ZeroDivisionError \<and>
         snd (snd (run_loop cfg st ps)) \<noteq> Some ZeroDivisionError \<and>
         (is_polyn sq t = Inl ZeroDivisionError \<longleftrightarrow> sq = [])"
proof -
  have dropped: "snd (loop_body cfg st p) = Continue \<and>
      n_mlen_drop_seq (fst (loop_body cfg st p)) = n_mlen_drop_seq st + 2"
    if "seq_of (fst p) = [] \<or> seq_of (snd p) = []"
    using loop_body_empty_mate [OF assms that, of st] count_pair_fields(3) [of MinLen st p]
      count_drop_fields(3) [of MinLen MinLen p "count_pair st p"]
    by (simp add: drops_seq_def)
  have guarded: "seq_of (fst p) \<noteq> [] \<and> seq_of (snd p) \<noteq> [] \<and> (\<exists>b. polyn_check cfg p = Inr b)"
    if "\<not> spec_length_fails (min_len cfg) (fst p) \<and> \<not> spec_length_fails (min_len cfg) (snd p)"
  proof -
    from that assms have "seq_of (fst p) \<noteq> []" "seq_of (snd p) \<noteq> []"
      by (auto dest: length_ok_nonempty)
    then show ?thesis using polyn_check_nonempty [of p cfg] by simp
  qed
  have body: "snd (loop_body cfg st p) \<noteq> Raise ZeroDivisionError"
    by (rule loop_body_no_zero_division [OF assms])
  have loop: "snd (snd (run_loop cfg st ps)) \<noteq> Some ZeroDivisionError"
    by (rule run_loop_no_zero_division [OF assms])
  have branch: "is_polyn sq t = Inl ZeroDivisionError \<longleftrightarrow> sq = []"
    by (simp add: is_polyn_error)
  from dropped guarded body loop branch show ?thesis by blast
qed

theorem length_filter_guards_polyn_division_witness:
  "snd (loop_body ex_cfg init_counters ex_pair_empty) = Continue \<and>
   n_mlen_drop_seq (fst (loop_body ex_cfg init_counters ex_pair_empty)) = 2 \<and>
   (\<exists>b. polyn_check ex_cfg ex_pair_a = Inr b) \<and>
   snd (snd (run_loop ex_cfg init_counters [ex_pair_empty, ex_pair_a])) \<noteq> Some ZeroDivisionError"
proof -
  have h: "1 \<le> min_len ex_cfg" by (simp add: ex_cfg_def)
  have e: "seq_of (fst ex_pair_empty) = [] \<or> seq_of (snd ex_pair_empty) = []"
    by (simp add: ex_pair_empty_def seq_of_def)
  have l: "\<not> spec_length_fails (min_len ex_cfg) (fst ex_pair_a) \<and>
           \<not> spec_length_fails (min_len ex_cfg) (snd ex_pair_a)"
    by (simp add: spec_length_fails_def ex_cfg_def ex_pair_a_def seq_of_def)
  have z: "n_mlen_drop_seq init_counters = 0" by (simp add: init_counters_def)
  from length_filter_guards_polyn_division [OF h, of ex_pair_empty init_counters]
    length_filter_guards_polyn_division [OF h, of ex_pair_a init_counters "[ex_pair_empty, ex_pair_a]"]
    e l z
  show ?thesis by simp
qed

text \<open>
  Claim C7. A command line whose offset is not 33 and not 64 (or is missing) is
  rejected when it is parsed: the program ends with the argument error, the generator
  is never started, so no pair is pulled and no counter incremented, and no output file
  is opened. For no command line and no input does the program end with the assertion
  of \<open>is_s35_bad\<close>.
\<close>
theorem invalid_offset_rejected_before_processing:
  assumes "opt_Q raw \<noteq> Some 33" and "opt_Q raw \<noteq> Some 64"
  shows "main raw lines_at = \<lparr>pipeline = None, written = [], failure = Some ArgumentError\<rparr> \<and>
         failure (main raw' lines_at') \<noteq> Some AssertionError"
proof
  from parse_args_invalid [OF assms]
  show "main raw lines_at = \<lparr>pipeline = None, written = [], failure = Some ArgumentError\<rparr>"
    by (simp add: main_def)
next
  show "failure (main raw' lines_at') \<noteq> Some AssertionError"
  proof (cases "parse_args raw'")
    case (Inl e)
    then have "e = ArgumentError"
      by (auto simp: parse_args_def split: option.splits if_splits)
    with Inl show ?thesis by (simp add: main_def)
  next
    case (Inr a)
    let ?cfg = "\<lparr>quafmt = arg_quafmt a, min_len = arg_min_len a, s35 = arg_fr_s35 a,
                  ns = arg_fr_ns a, polyn = arg_fr_polyn a\<rparr>"
    from parse_args_valid [OF Inr] have "quafmt ?cfg = 33 \<or> quafmt ?cfg = 64" by simp
    from solexa_reads_filter_no_assertion [OF this] Inr show ?thesis
      by (auto simp: main_def Let_def split: sum.splits)
  qed
qed


theorem invalid_offset_rejected_before_processing_witness:
  "main (ex_raw\<lparr>opt_Q := Some 50\<rparr>) ex_lines_at =
     \<lparr>pipeline = None, written = [], failure = Some ArgumentError\<rparr> \<and>
   failure (main ex_raw ex_lines_at) \<noteq> Some AssertionError"
proof -
  have h: "opt_Q (ex_raw\<lparr>opt_Q := Some 50\<rparr>) \<noteq> Some 33"
    "opt_Q (ex_raw\<lparr>opt_Q := Some 50\<rparr>) \<noteq> Some 64"
    by simp_all
  show ?thesis by (rule invalid_offset_rejected_before_processing [OF h])
qed

text \<open>
  Claim C8. \<open>parse_fastq\<close> never raises and yields the four-line groups of its input:
  as many records as the number of lines divided by four, rounded down, the record
  \<open>k\<close> made of the lines \<open>4k\<close> to \<open>4k + 3\<close>, each stripped. The lines of a trailing
  partial group appear in no record. Stripping a line removes a prefix and a suffix
  made only of the characters space, tab, line feed, vertical tab, form feed and
  carriage return, and what remains neither starts nor ends with one of them.
\<close>
theorem parse_fastq_groups_of_four:
  "parse_fastq fi = Inr (records_of fi) \<and>
   length (records_of fi) = length fi div 4 \<and>
   records_of fi =
     map (\<lambda>k. (strip (fi ! (4 * k)), strip (fi ! (4 * k + 1)),
               strip (fi ! (4 * k + 2)), strip (fi ! (4 * k + 3))))
         [0..<length fi div 4] \<and>
   (\<exists>pre suf. s = pre @ strip s @ suf \<and>
      set pre \<subseteq> {CHR '' '', CHR 0x09, CHR 0x0A, CHR 0x0B, CHR 0x0C, CHR 0x0D} \<and>
      set suf \<subseteq> {CHR '' '', CHR 0x09, CHR 0x0A, CHR 0x0B, CHR 0x0C, CHR 0x0D}) \<and>
   (strip s \<noteq> [] \<longrightarrow>
      hd (strip s) \<notin> {CHR '' '', CHR 0x09, CHR 0x0A, CHR 0x0B, CHR 0x0C, CHR 0x0D} \<and>
      last (strip s) \<notin> {CHR '' '', CHR 0x09, CHR 0x0A, CHR 0x0B, CHR 0x0C, CHR 0x0D})"
proof -
  have grouping: "parse_fastq fi = Inr (records_of fi) \<and>
     length (records_of fi) = length fi div 4 \<and>
     records_of fi =
       map (\<lambda>k. (strip (fi ! (4 * k)), strip (fi ! (4 * k + 1)),
                 strip (fi ! (4 * k + 2)), strip (fi ! (4 * k + 3))))
           [0..<length fi div 4]"
    using records_of_map [of fi] by (simp add: parse_fastq_records_of length_records_of)
  have ends: "hd (strip s) \<notin> {CHR '' '', CHR 0x09, CHR 0x0A, CHR 0x0B, CHR 0x0C, CHR 0x0D} \<and>
      last (strip s) \<notin> {CHR '' '', CHR 0x09, CHR 0x0A, CHR 0x0B, CHR 0x0C, CHR 0x0D}"
    if "strip s \<noteq> []"
    using strip_ends [OF that] by (simp only: is_space_iff) simp
  from grouping strip_whitespace_only [of s] ends show ?thesis
    by blast
qed

theorem parse_fastq_groups_of_four_witness:
  "parse_fastq ex_ws_lines = Inr [(''@w/1'', ''AC GT'', ''+'', ''II II'')] \<and>
   length (records_of ex_ws_lines) = 1 \<and>
   strip (hd ex_ws_lines) = ''@w/1'' \<and>
   hd (strip (hd ex_ws_lines)) \<notin> {CHR '' '', CHR 0x09, CHR 0x0A, CHR 0x0B, CHR 0x0C, CHR 0x0D} \<and>
   last (strip (hd ex_ws_lines)) \<notin> {CHR '' '', CHR 0x09, CHR 0x0A, CHR 0x0B, CHR 0x0C, CHR 0x0D}"
proof -
  have r: "records_of ex_ws_lines = [(''@w/1'', ''AC GT'', ''+'', ''II II'')]"
    by code_simp
  have v: "strip (hd ex_ws_lines) = ''@w/1''"
    by code_simp
  have n: "strip (hd ex_ws_lines) \<noteq> []"
    by (simp only: v) simp
  have l: "length ex_ws_lines div 4 = 1"
    by (simp add: ex_ws_lines_def)
  from parse_fastq_groups_of_four [of ex_ws_lines "hd ex_ws_lines"] n
  have "parse_fastq ex_ws_lines = Inr (records_of ex_ws_lines)"
    and "length (records_of ex_ws_lines) = length ex_ws_lines div 4"
    and "hd (strip (hd ex_ws_lines)) \<notin> {CHR '' '', CHR 0x09, CHR 0x0A, CHR 0x0B, CHR 0x0C, CHR 0x0D} \<and>
         last (strip (hd ex_ws_lines)) \<notin> {CHR '' '', CHR 0x09, CHR 0x0A, CHR 0x0B, CHR 0x0C, CHR 0x0D}"
    by blast+
  with r v l show ?thesis by (simp only:) simp
qed

text \<open>
  Claim C9. If no pair of the two files fails an enabled filter, and no filter can
  raise (the offset is valid when the quality window is enabled; \<open>min_len \<ge> 1\<close> or no
  mate is empty when the low-complexity filter is), the pairs yielded are all the pairs
  pulled, in order; when the two files have equally many records, the first mates
  yielded are the records of the first file and the second mates those of the second.
\<close>
theorem no_filter_triggered_emits_all:
  assumes "parse_fastq r1_lines = Inr rs1" and "parse_fastq r2_lines = Inr rs2"
    and "\<forall>p \<in> set (zip rs1 rs2). spec_first_failing cfg p = None"
    and "s35 cfg \<longrightarrow> quafmt cfg = 33 \<or> quafmt cfg = 64"
    and "polyn cfg \<longrightarrow> 1 \<le> min_len cfg \<or>
           (\<forall>p \<in> set (zip rs1 rs2). seq_of (fst p) \<noteq> [] \<and> seq_of (snd p) \<noteq> [])"
  shows "emitted (solexa_reads_filter r1_lines r2_lines cfg) = zip rs1 rs2 \<and>
         (length rs1 = length rs2 \<longrightarrow>
            map fst (emitted (solexa_reads_filter r1_lines r2_lines cfg)) = rs1 \<and>
            map snd (emitted (solexa_reads_filter r1_lines r2_lines cfg)) = rs2)"
proof -
  from assms(1,2) have rs: "records_of r1_lines = rs1" "records_of r2_lines = rs2"
    by (simp_all add: parse_fastq_records_of)
  have "emitted (solexa_reads_filter r1_lines r2_lines cfg) =
          fst (snd (run_loop cfg init_counters (zip rs1 rs2)))"
    by (simp add: emitted_solexa_reads_filter rs)
  also have "\<dots> = zip rs1 rs2"
    by (rule run_loop_all_pass [OF assms(3,4,5)])
  finally show ?thesis by simp
qed

theorem no_filter_triggered_emits_all_witness:
  "emitted (solexa_reads_filter ex_r1_lines ex_r2_lines ex_cfg_off) = [ex_pair_a, ex_pair_b] \<and>
   map fst (emitted (solexa_reads_filter ex_r1_lines ex_r2_lines ex_cfg_off))
     = [fst ex_pair_a, fst ex_pair_b] \<and>
   map snd (emitted (solexa_reads_filter ex_r1_lines ex_r2_lines ex_cfg_off))
     = [snd ex_pair_a, snd ex_pair_b]"
proof -
  have p1: "parse_fastq ex_r1_lines = Inr [fst ex_pair_a, fst ex_pair_b]" by code_simp
  have p2: "parse_fastq ex_r2_lines = Inr [snd ex_pair_a, snd ex_pair_b]" by code_simp
  have nf: "\<forall>p \<in> set (zip [fst ex_pair_a, fst ex_pair_b] [snd ex_pair_a, snd ex_pair_b]).
              spec_first_failing ex_cfg_off p = None"
    by (simp add: spec_first_failing_def spec_length_fails_def ex_cfg_off_def
                  ex_pair_a_def ex_pair_b_def seq_of_def)
  have v: "s35 ex_cfg_off \<longrightarrow> quafmt ex_cfg_off = 33 \<or> quafmt ex_cfg_off = 64"
    "polyn ex_cfg_off \<longrightarrow> 1 \<le> min_len ex_cfg_off \<or>
       (\<forall>p \<in> set (zip [fst ex_pair_a, fst ex_pair_b] [snd ex_pair_a, snd ex_pair_b]).
          seq_of (fst p) \<noteq> [] \<and> seq_of (snd p) \<noteq> [])"
    by (simp_all add: ex_cfg_off_def)
  from no_filter_triggered_emits_all [OF p1 p2 nf v] show ?thesis by simp
qed

text \<open>
  Claim C10. For every input, configuration and starting counters, the pairs yielded
  form a subsequence of the pairs pulled: each is a pulled pair, unchanged, and they
  keep their order and multiplicity. Both readers succeed, and the pairs pulled are
  their records paired up.
\<close>
theorem emitted_is_subsequence_of_pulled:
  "subseq (fst (snd (run_loop cfg st ps))) ps \<and>
   (\<exists>rs1 rs2. parse_fastq r1_lines = Inr rs1 \<and> parse_fastq r2_lines = Inr rs2 \<and>
      subseq (emitted (solexa_reads_filter r1_lines r2_lines cfg)) (zip rs1 rs2))"
  by (simp add: run_loop_subseq parse_fastq_records_of emitted_solexa_reads_filter)

end
